theory Spec2Isabelle
  imports Main "HOL-Library.Word" "HOL-Library.Multiset"
begin

section \<open>HTTP digest authentication: the verifier and the nonce cache of digest.go\<close>

text \<open>
  The theory embeds \<^verbatim>\<open>src/digest.go\<close>: the per-nonce session (\<^verbatim>\<open>digest_client\<close>), the
  authenticator (\<^verbatim>\<open>DigestAuth\<close>) with its nonce cache \<^verbatim>\<open>clients\<close>, and the operations
  \<^verbatim>\<open>Purge\<close>, \<^verbatim>\<open>RequireAuth\<close>, \<^verbatim>\<open>DigestAuthParams\<close> and \<^verbatim>\<open>CheckAuth\<close>.

  Conventions.
  \<^item> Go strings are byte strings: \<open>string\<close>. A read \<^verbatim>\<open>m[k]\<close> of a \<^verbatim>\<open>map[string]string\<close>
    gives the empty string for an absent key: \<open>get\<close>.
  \<^item> \<^verbatim>\<open>uint64\<close> is \<open>64 word\<close> (comparison is unsigned). \<^verbatim>\<open>int64\<close> time stamps are
    \<open>int\<close>: they are only stored and compared. Go's \<^verbatim>\<open>int\<close> is taken to be 64 bits wide and
    is \<open>int\<close> with the wrap-around of \<^verbatim>\<open>+\<close> and \<^verbatim>\<open>*\<close> written out (\<open>wrap_int\<close>).
  \<^item> The cache \<^verbatim>\<open>map[string]*digest_client\<close> is a map \<open>string \<rightharpoonup> digest_client\<close>; every
    entry is a pointer to a struct of its own, so an update through the pointer is an
    update of that entry.
  \<^item> A run-time panic is a value: operations that can panic return \<open>panic + 'a\<close>.
  \<^item> What the code reads from outside is an argument: the clock
    (\<^verbatim>\<open>time.Now().UnixNano()\<close>) is \<open>now\<close>, the fresh nonce (\<^verbatim>\<open>RandomKey()\<close>) is
    \<open>nonce\<close>, the order in which \<^verbatim>\<open>range\<close> walks the cache is \<open>rng\<close>.
  \<^item> Functions, tables and types that digest.go uses and does not define
    (\<^verbatim>\<open>ParsePairs\<close>, \<^verbatim>\<open>algorithms\<close>, \<^verbatim>\<open>Headers.V\<close>, \<^verbatim>\<open>contentType\<close>) and the two large
    library functions \<^verbatim>\<open>strings.ToUpper\<close> and \<^verbatim>\<open>url.Parse\<close> are parameters, collected in
    the record \<open>env\<close>: every theorem holds for each choice of them.
  \<^item> The mutex is left out of the sequential model; the lock operations of each function
    are modelled separately, as lists of events.
\<close>

subsection \<open>Data\<close>

text \<open>\<^verbatim>\<open>type digest_client struct { nc uint64; last_seen int64 }\<close>\<close>

record digest_client =
  nc :: "64 word"
  last_seen :: int

text \<open>The fields of \<^verbatim>\<open>Headers\<close> that digest.go reads (the type is declared elsewhere).\<close>

record Headers =
  Authenticate :: string
  Authorization :: string
  AuthInfo :: string
  UnauthCode :: int
  UnauthContentType :: string
  UnauthResponse :: string

text \<open>\<^verbatim>\<open>type DigestAuth struct\<close>, without the mutex.\<close>

record DigestAuth =
  Algorithm :: string
  Realm :: string
  Opaque :: string
  Secrets :: "string \<Rightarrow> string \<Rightarrow> string"
  PlainTextSecrets :: bool
  IgnoreNonceCount :: bool
  Headers :: "Headers option"
  ClientCacheSize :: int
  ClientCacheTolerance :: int
  clients :: "string \<rightharpoonup> digest_client"

text \<open>\<^verbatim>\<open>type digest_cache_entry struct { nonce string; last_seen int64 }\<close>; the fields carry
  a prefix because \<open>last_seen\<close> is the field of \<open>digest_client\<close>.\<close>

record digest_cache_entry =
  e_nonce :: string
  e_last_seen :: int

text \<open>What \<^verbatim>\<open>CheckAuth\<close> reads of \<^verbatim>\<open>*url.URL\<close> and \<^verbatim>\<open>*http.Request\<close>. \<open>URL r = None\<close> is
  \<^verbatim>\<open>r.URL == nil\<close>; \<open>Header_Get r\<close> is \<^verbatim>\<open>r.Header.Get\<close>.\<close>

record URL =
  Path :: string

record Request =
  Method :: string
  RequestURI :: string
  URL :: "URL option"
  Header_Get :: "string \<Rightarrow> string"

text \<open>The parameters: \<open>ParsePairs\<close> gives \<open>None\<close> for a nil map, \<open>algorithms\<close> is the hash
  registry, \<open>url_Parse\<close> gives \<open>None\<close> for \<^verbatim>\<open>err != nil\<close>.\<close>

record env =
  ParsePairs :: "string \<Rightarrow> (string \<rightharpoonup> string) option"
  algorithms :: "string \<rightharpoonup> (string \<Rightarrow> string)"
  ToUpper :: "string \<Rightarrow> string"
  url_Parse :: "string \<Rightarrow> URL option"
  V :: "Headers option \<Rightarrow> Headers"
  contentType :: string

datatype panic = SliceBoundsOutOfRange

subsection \<open>Library functions of Go that the code calls\<close>

text \<open>\<^verbatim>\<open>m[k]\<close> on a \<^verbatim>\<open>map[string]string\<close>.\<close>

definition get :: "(string \<rightharpoonup> string) \<Rightarrow> string \<Rightarrow> string" where
  "get m k = (case m k of None \<Rightarrow> [] | Some v \<Rightarrow> v)"

text \<open>\<^verbatim>\<open>strings.SplitN(s, " ", 2)\<close>: cut at the first space, if there is one.\<close>

definition SplitN_space_2 :: "string \<Rightarrow> string list" where
  "SplitN_space_2 s =
     (if CHR '' '' \<in> set s
      then [takeWhile (\<lambda>c. c \<noteq> CHR '' '') s, tl (dropWhile (\<lambda>c. c \<noteq> CHR '' '') s)]
      else [s])"

text \<open>\<^verbatim>\<open>strings.Join(elems, sep)\<close>.\<close>

fun Join :: "string list \<Rightarrow> string \<Rightarrow> string" where
  "Join [] sep = []"
| "Join [x] sep = x"
| "Join (x # y # ys) sep = x @ sep @ Join (y # ys) sep"

text \<open>\<^verbatim>\<open>strings.HasPrefix(s, prefix)\<close>: \<^verbatim>\<open>len(s) >= len(prefix) && s[:len(prefix)] == prefix\<close>.\<close>

definition HasPrefix :: "string \<Rightarrow> string \<Rightarrow> bool" where
  "HasPrefix s p \<longleftrightarrow> length s \<ge> length p \<and> take (length p) s = p"

text \<open>\<^verbatim>\<open>subtle.ConstantTimeCompare(x, y)\<close>: 1 when the two byte strings are equal, else 0.\<close>

definition ConstantTimeCompare :: "string \<Rightarrow> string \<Rightarrow> int" where
  "ConstantTimeCompare x y = (if x = y then 1 else 0)"

text \<open>\<^verbatim>\<open>strconv.ParseUint(s, 16, 64)\<close>. A digit is \<^verbatim>\<open>0-9\<close>, \<^verbatim>\<open>a-f\<close> or \<^verbatim>\<open>A-F\<close>; no sign, no
  prefix and no underscore is accepted in base 16. The loop fails when the value so far
  has reached the cutoff \<open>2^60\<close> (\<^verbatim>\<open>maxUint64/16 + 1\<close>) and another digit follows, which is
  when the number does not fit 64 bits. \<open>None\<close> is \<^verbatim>\<open>err != nil\<close>.\<close>

definition hex_digit :: "char \<Rightarrow> nat option" where
  "hex_digit c =
     (let n = (of_char c :: nat) in
      if 48 \<le> n \<and> n \<le> 57 then Some (n - 48)
      else if 97 \<le> n \<and> n \<le> 102 then Some (n - 87)
      else if 65 \<le> n \<and> n \<le> 70 then Some (n - 55)
      else None)"

fun ParseUint_loop :: "nat \<Rightarrow> string \<Rightarrow> nat option" where
  "ParseUint_loop n [] = Some n"
| "ParseUint_loop n (c # cs) =
     (case hex_digit c of
        None \<Rightarrow> None
      | Some d \<Rightarrow>
          if n \<ge> 2 ^ 60 then None
          else (let n1 = n * 16 + d in
                if n1 < n \<or> n1 > 2 ^ 64 - 1 then None else ParseUint_loop n1 cs))"

definition ParseUint :: "string \<Rightarrow> 64 word option" where
  "ParseUint s = (if s = [] then None else map_option of_nat (ParseUint_loop 0 s))"

text \<open>Go's \<^verbatim>\<open>int\<close> arithmetic on a 64-bit platform: the result of \<^verbatim>\<open>+\<close> or \<^verbatim>\<open>*\<close> wraps into
  \<open>-2^63 ..< 2^63\<close>.\<close>

definition wrap_int :: "int \<Rightarrow> int" where
  "wrap_int x = (x + 2 ^ 63) mod 2 ^ 64 - 2 ^ 63"

subsection \<open>DigestAuthParams (digest.go 118-125)\<close>

definition DigestAuthParams :: "env \<Rightarrow> string \<Rightarrow> (string \<rightharpoonup> string) option" where
  "DigestAuthParams env authorization =
     (let s = SplitN_space_2 authorization in
      if length s \<noteq> 2 \<or> s ! 0 \<noteq> ''Digest'' then None
      else ParsePairs env (s ! 1))"

subsection \<open>CheckAuth (digest.go 133-218)\<close>

text \<open>Lines 163-182: the check that the request URI matches the digest \<^verbatim>\<open>uri\<close>. The
  \<^verbatim>\<open>switch\<close> tries its cases in order; each of them rejects.\<close>

definition uri_matches :: "env \<Rightarrow> Request \<Rightarrow> string \<Rightarrow> bool" where
  "uri_matches env r uri =
     (if RequestURI r \<noteq> uri then
        (case url_Parse env uri of
           None \<Rightarrow> False
         | Some u \<Rightarrow>
            (case URL r of
               None \<Rightarrow> False
             | Some ru \<Rightarrow>
                 if length (Path u) > length (Path ru) then False
                 else if \<not> HasPrefix (Path ru) (Path u) then False
                 else True))
      else True)"

text \<open>Line 216: \<^verbatim>\<open>fmt.Sprintf(`qop="auth", rspauth="%s", cnonce="%s", nc="%s"`, ...)\<close>.\<close>

definition authinfo_string :: "string \<Rightarrow> string \<Rightarrow> string \<Rightarrow> string" where
  "authinfo_string rspauth cnonce ncs =
     ''qop=\"auth\", rspauth=\"'' @ rspauth @ ''\", cnonce=\"'' @ cnonce @ ''\", nc=\"'' @ ncs @ ''\"''"

text \<open>The result is the pair \<^verbatim>\<open>(username, authinfo)\<close>, \<open>None\<close> for a nil \<^verbatim>\<open>authinfo\<close>, and
  the authenticator after the call. Every \<^verbatim>\<open>return "", nil\<close> of the source is a branch
  that returns \<open>([], None, da)\<close>.\<close>

definition CheckAuth :: "env \<Rightarrow> DigestAuth \<Rightarrow> Request \<Rightarrow> int \<Rightarrow> string \<times> string option \<times> DigestAuth" where
  "CheckAuth env da r now =
     (case DigestAuthParams env (Header_Get r (Authorization (V env (Headers da)))) of
        None \<Rightarrow> ([], None, da)
      | Some auth0 \<Rightarrow>
         (let auth = (if auth0 ''algorithm'' = None then auth0(''algorithm'' \<mapsto> ''MD5'') else auth0) in
          if Opaque da \<noteq> get auth ''opaque'' \<or> get auth ''qop'' \<noteq> ''auth'' then ([], None, da)
          else
           (case algorithms env (ToUpper env (get auth ''algorithm'')) of
              None \<Rightarrow> ([], None, da)
            | Some H \<Rightarrow>
               if \<not> uri_matches env r (get auth ''uri'') then ([], None, da)
               else
                (let HA1 = Secrets da (get auth ''username'') (Realm da);
                     HA1 = (if PlainTextSecrets da
                            then H (get auth ''username'' @ '':'' @ Realm da @ '':'' @ HA1)
                            else HA1);
                     HA2 = H (Method r @ '':'' @ get auth ''uri'');
                     KD = H (Join [HA1, get auth ''nonce'', get auth ''nc'', get auth ''cnonce'',
                                   get auth ''qop'', HA2] '':'')
                 in
                 if ConstantTimeCompare KD (get auth ''response'') \<noteq> 1 then ([], None, da)
                 else
                  (case ParseUint (get auth ''nc'') of
                     None \<Rightarrow> ([], None, da)
                   | Some n \<Rightarrow>
                      (case clients da (get auth ''nonce'') of
                         None \<Rightarrow> ([], None, da)
                       | Some client \<Rightarrow>
                          if nc client \<noteq> 0 \<and> nc client \<ge> n \<and> \<not> IgnoreNonceCount da
                          then ([], None, da)
                          else
                           (let da' = da\<lparr>clients := (clients da)(get auth ''nonce'' \<mapsto>
                                          client\<lparr>nc := n, last_seen := now\<rparr>)\<rparr>;
                                resp_HA2 = H ('':'' @ get auth ''uri'');
                                rspauth = H (Join [HA1, get auth ''nonce'', get auth ''nc'',
                                                   get auth ''cnonce'', get auth ''qop'', resp_HA2] '':'');
                                info = authinfo_string rspauth (get auth ''cnonce'') (get auth ''nc'')
                            in (get auth ''username'', Some info, da'))))))))"

subsection \<open>Names for the steps of CheckAuth\<close>

text \<open>The theorems below speak about the values \<^verbatim>\<open>CheckAuth\<close> computes on its way. Each
  of these definitions names one of them; \<open>CheckAuth_steps\<close> proves that \<open>CheckAuth\<close> is
  the composition of the named steps.\<close>

text \<open>Lines 138-153: the parsed parameters, with \<^verbatim>\<open>algorithm\<close> set to \<^verbatim>\<open>MD5\<close> when absent.\<close>

definition request_params :: "env \<Rightarrow> DigestAuth \<Rightarrow> Request \<Rightarrow> (string \<rightharpoonup> string) option" where
  "request_params env da r =
     (case DigestAuthParams env (Header_Get r (Authorization (V env (Headers da)))) of
        None \<Rightarrow> None
      | Some auth0 \<Rightarrow>
          Some (if auth0 ''algorithm'' = None then auth0(''algorithm'' \<mapsto> ''MD5'') else auth0))"

text \<open>Line 158: the digest function selected by the request.\<close>

definition hash_of :: "env \<Rightarrow> (string \<rightharpoonup> string) \<Rightarrow> (string \<Rightarrow> string) option" where
  "hash_of env auth = algorithms env (ToUpper env (get auth ''algorithm''))"

text \<open>Lines 184-187: HA1, rehashed in plaintext-secret mode.\<close>

definition HA1_of :: "(string \<Rightarrow> string) \<Rightarrow> DigestAuth \<Rightarrow> (string \<rightharpoonup> string) \<Rightarrow> string" where
  "HA1_of H da auth =
     (if PlainTextSecrets da
      then H (get auth ''username'' @ '':'' @ Realm da @ '':'' @
              Secrets da (get auth ''username'') (Realm da))
      else Secrets da (get auth ''username'') (Realm da))"

text \<open>Lines 188-189: the expected response.\<close>

definition KD_of :: "(string \<Rightarrow> string) \<Rightarrow> DigestAuth \<Rightarrow> Request \<Rightarrow> (string \<rightharpoonup> string) \<Rightarrow> string" where
  "KD_of H da r auth =
     H (Join [HA1_of H da auth, get auth ''nonce'', get auth ''nc'', get auth ''cnonce'',
              get auth ''qop'', H (Method r @ '':'' @ get auth ''uri'')] '':'')"

text \<open>Lines 213-214: the value of \<^verbatim>\<open>rspauth\<close>.\<close>

definition rspauth_of :: "(string \<Rightarrow> string) \<Rightarrow> DigestAuth \<Rightarrow> (string \<rightharpoonup> string) \<Rightarrow> string" where
  "rspauth_of H da auth =
     H (Join [HA1_of H da auth, get auth ''nonce'', get auth ''nc'', get auth ''cnonce'',
              get auth ''qop'', H ('':'' @ get auth ''uri'')] '':'')"

text \<open>Lines 154-193: the request passes every check up to and including the comparison
  of the response (the checks that do not read the cache).\<close>

definition crypto_valid :: "env \<Rightarrow> DigestAuth \<Rightarrow> Request \<Rightarrow> (string \<rightharpoonup> string) \<Rightarrow> bool" where
  "crypto_valid env da r auth \<longleftrightarrow>
     Opaque da = get auth ''opaque'' \<and> get auth ''qop'' = ''auth'' \<and>
     (case hash_of env auth of
        None \<Rightarrow> False
      | Some H \<Rightarrow> uri_matches env r (get auth ''uri'') \<and> KD_of H da r auth = get auth ''response'')"

text \<open>Lines 198-218: the session check and the update, for a request that passed the
  checks above with digest function \<open>H\<close>.\<close>

definition session_step ::
  "(string \<Rightarrow> string) \<Rightarrow> DigestAuth \<Rightarrow> (string \<rightharpoonup> string) \<Rightarrow> int \<Rightarrow> string \<times> string option \<times> DigestAuth" where
  "session_step H da auth now =
     (case ParseUint (get auth ''nc'') of
        None \<Rightarrow> ([], None, da)
      | Some n \<Rightarrow>
         (case clients da (get auth ''nonce'') of
            None \<Rightarrow> ([], None, da)
          | Some client \<Rightarrow>
             if nc client \<noteq> 0 \<and> nc client \<ge> n \<and> \<not> IgnoreNonceCount da then ([], None, da)
             else (get auth ''username'',
                   Some (authinfo_string (rspauth_of H da auth) (get auth ''cnonce'') (get auth ''nc'')),
                   da\<lparr>clients := (clients da)(get auth ''nonce'' \<mapsto> client\<lparr>nc := n, last_seen := now\<rparr>)\<rparr>)))"

text \<open>\<^verbatim>\<open>CheckAuth\<close> called on a list of requests, one after the other, each with the time
  of its call: the results in order and the authenticator after the last call.\<close>

fun CheckAuth_seq ::
  "env \<Rightarrow> DigestAuth \<Rightarrow> (Request \<times> int) list \<Rightarrow> (string \<times> string option) list \<times> DigestAuth" where
  "CheckAuth_seq env da [] = ([], da)"
| "CheckAuth_seq env da ((r, now) # rs) =
     (case CheckAuth env da r now of
        (username, authinfo, da') \<Rightarrow>
          (case CheckAuth_seq env da' rs of
             (results, da'') \<Rightarrow> ((username, authinfo) # results, da'')))"

text \<open>The authenticator with the session of \<open>nonce\<close> set to \<open>c\<close>.\<close>

definition with_session :: "DigestAuth \<Rightarrow> string \<Rightarrow> digest_client \<Rightarrow> DigestAuth" where
  "with_session da nonce c = da\<lparr>clients := (clients da)(nonce \<mapsto> c)\<rparr>"

subsection \<open>Purge (digest.go 71-83)\<close>

text \<open>\<^verbatim>\<open>len(da.clients)\<close>.\<close>

definition len_clients :: "DigestAuth \<Rightarrow> int" where
  "len_clients da = int (card (dom (clients da)))"

text \<open>The \<^verbatim>\<open>range\<close> loop of line 74 visits every entry of the map once, in an order that
  Go leaves open: \<open>rng\<close> is the list of the pairs \<^verbatim>\<open>(nonce, client)\<close> in the order of the
  visit, and \<open>is_range m rng\<close> says that it lists the map \<open>m\<close>.\<close>

definition is_range :: "(string \<rightharpoonup> digest_client) \<Rightarrow> (string \<times> digest_client) list \<Rightarrow> bool" where
  "is_range m rng \<longleftrightarrow> distinct (map fst rng) \<and> map_of rng = m"

text \<open>\<^verbatim>\<open>sort.Sort(cache)\<close> with \<^verbatim>\<open>Less(i, j) = c[i].last_seen < c[j].last_seen\<close>: the entries
  in ascending order of \<open>last_seen\<close>. Go's sort is not stable, so the order of entries
  with equal time stamps is open, as the order of the \<^verbatim>\<open>range\<close> is. The model sorts by
  stable insertion; together with the free order \<open>rng\<close> it yields every ascending
  arrangement of the entries (\<open>sort_Sort_every_order\<close>).\<close>

definition sort_Sort :: "digest_cache_entry list \<Rightarrow> digest_cache_entry list" where
  "sort_Sort cache = sort_key e_last_seen cache"

text \<open>Lines 73-76: the loop appends one \<^verbatim>\<open>digest_cache_entry\<close> for every pair it visits.\<close>

definition entries_of :: "(string \<times> digest_client) list \<Rightarrow> digest_cache_entry list" where
  "entries_of rng = map (\<lambda>(nonce, client). \<lparr>e_nonce = nonce, e_last_seen = last_seen client\<rparr>) rng"

text \<open>\<^verbatim>\<open>entries\<close> is made with capacity \<^verbatim>\<open>len(da.clients)\<close> and filled by the loop, so
  \<^verbatim>\<open>cache[:count]\<close> panics (slice bounds out of range) unless
  \<^verbatim>\<open>0 <= count <= len(da.clients)\<close>. The parameter \<^verbatim>\<open>count\<close> is \<open>cnt\<close> here.\<close>

definition Purge :: "DigestAuth \<Rightarrow> (string \<times> digest_client) list \<Rightarrow> int \<Rightarrow> panic + DigestAuth" where
  "Purge da rng cnt =
     (let entries = entries_of rng;
          cache = sort_Sort entries
      in if cnt < 0 \<or> len_clients da < cnt then Inl SliceBoundsOutOfRange
         else Inr (da\<lparr>clients :=
                foldl (\<lambda>m client. m(e_nonce client := None)) (clients da) (take (nat cnt) cache)\<rparr>))"

subsection \<open>RequireAuth (digest.go 89-111)\<close>

text \<open>The calls that \<^verbatim>\<open>RequireAuth\<close> makes on its \<^verbatim>\<open>http.ResponseWriter\<close>.\<close>

datatype writer_call = Header_Set string string | WriteHeader int | Write string

text \<open>Lines 106-107: the challenge.\<close>

definition challenge_string :: "DigestAuth \<Rightarrow> string \<Rightarrow> string" where
  "challenge_string da nonce =
     ''Digest realm=\"'' @ Realm da @ ''\", nonce=\"'' @ nonce @ ''\", opaque=\"'' @ Opaque da @
     ''\", algorithm=\"'' @ Algorithm da @ ''\", qop=\"auth\"''"

text \<open>Lines 103-110: the calls that write the response.\<close>

definition unauthorized_response :: "env \<Rightarrow> DigestAuth \<Rightarrow> string \<Rightarrow> writer_call list" where
  "unauthorized_response env da nonce =
     [Header_Set (contentType env) (UnauthContentType (V env (Headers da))),
      Header_Set (Authenticate (V env (Headers da))) (challenge_string da nonce),
      WriteHeader (UnauthCode (V env (Headers da))),
      Write (UnauthResponse (V env (Headers da)))]"

text \<open>The result is the authenticator after the call and the calls made on the writer, in
  order; a panic of \<^verbatim>\<open>Purge\<close> ends the call.\<close>

definition RequireAuth ::
  "env \<Rightarrow> DigestAuth \<Rightarrow> (string \<times> digest_client) list \<Rightarrow> string \<Rightarrow> int \<Rightarrow>
   panic + (DigestAuth \<times> writer_call list)" where
  "RequireAuth env da rng nonce now =
     (case (if len_clients da > wrap_int (ClientCacheSize da + ClientCacheTolerance da)
            then Purge da rng (wrap_int (ClientCacheTolerance da * 2))
            else Inr da) of
        Inl p \<Rightarrow> Inl p
      | Inr da1 \<Rightarrow>
          (let da2 = da1\<lparr>clients := (clients da1)(nonce \<mapsto> \<lparr>nc = 0, last_seen = now\<rparr>)\<rparr>
           in Inr (da2, unauthorized_response env da2 nonce)))"

text \<open>\<^verbatim>\<open>RequireAuth\<close> called once for every element of a list, each with the order of its
  \<^verbatim>\<open>range\<close>, its nonce and its time: the authenticator after the last call.\<close>

fun RequireAuth_seq ::
  "env \<Rightarrow> DigestAuth \<Rightarrow> ((string \<times> digest_client) list \<times> string \<times> int) list \<Rightarrow> panic + DigestAuth" where
  "RequireAuth_seq env da [] = Inr da"
| "RequireAuth_seq env da ((rng, nonce, now) # cs) =
     (case RequireAuth env da rng nonce now of
        Inl p \<Rightarrow> Inl p
      | Inr (da', calls) \<Rightarrow> RequireAuth_seq env da' cs)"

text \<open>The session that the issuance \<open>(rng, nonce, now)\<close> registers.\<close>

definition issued_session ::
  "(string \<times> digest_client) list \<times> string \<times> int \<Rightarrow> string \<times> digest_client" where
  "issued_session c = (fst (snd c), \<lparr>nc = 0, last_seen = snd (snd c)\<rparr>)"

text \<open>\<open>R\<close> is a set of oldest entries of \<open>m\<close>: no entry outside \<open>R\<close> was seen earlier
  than an entry in \<open>R\<close>.\<close>

definition oldest_in :: "(string \<rightharpoonup> digest_client) \<Rightarrow> string set \<Rightarrow> bool" where
  "oldest_in m R \<longleftrightarrow>
     R \<subseteq> dom m \<and>
     (\<forall>a\<in>R. \<forall>b\<in>dom m - R. \<forall>ca cb. m a = Some ca \<and> m b = Some cb \<longrightarrow> last_seen ca \<le> last_seen cb)"

subsection \<open>The mutex\<close>

text \<open>The functions above leave \<^verbatim>\<open>da.mutex\<close> out. What each function does with it is
  modelled here: the lock operations it performs, and between them its reads and writes
  of the cache, in program order. \<open>Lock\<close> and \<open>Unlock\<close> are the exclusive lock,
  \<open>RLock\<close> and \<open>RUnlock\<close> the shared one.
  \<^item> \<^verbatim>\<open>Purge\<close>: \<^verbatim>\<open>Lock\<close> (line 72), one read for every entry visited (74-76), one
    delete for every entry of \<^verbatim>\<open>cache[:count]\<close> (79-81), \<^verbatim>\<open>Unlock\<close> (82); a panic at line 79
    leaves the function before the \<^verbatim>\<open>Unlock\<close>.
  \<^item> \<^verbatim>\<open>RequireAuth\<close>: the size is read under the shared lock (90-96), \<^verbatim>\<open>Purge\<close> runs
    with no lock held, the insert is under the exclusive lock (99-101), the response is
    written under the shared lock (103-110).
  \<^item> \<^verbatim>\<open>CheckAuth\<close>: \<^verbatim>\<open>RLock\<close> at line 134 and the deferred \<^verbatim>\<open>RUnlock\<close> at every return;
    the lookup of line 203 and the two assignments of lines 209-210 in between.\<close>

datatype lock_event = Lock | Unlock | RLock | RUnlock | Read_cache | Write_cache

datatype lock_mode = Unlocked | Shared | Exclusive

definition Purge_events :: "DigestAuth \<Rightarrow> (string \<times> digest_client) list \<Rightarrow> int \<Rightarrow> lock_event list" where
  "Purge_events da rng cnt =
     Lock # map (\<lambda>c. Read_cache) rng @
     (if cnt < 0 \<or> len_clients da < cnt then []
      else map (\<lambda>client. Write_cache) (take (nat cnt) (sort_Sort (entries_of rng))) @ [Unlock])"

definition RequireAuth_events :: "DigestAuth \<Rightarrow> (string \<times> digest_client) list \<Rightarrow> lock_event list" where
  "RequireAuth_events da rng =
     [RLock, Read_cache, RUnlock] @
     (if len_clients da > wrap_int (ClientCacheSize da + ClientCacheTolerance da)
      then (let cnt = wrap_int (ClientCacheTolerance da * 2) in
            Purge_events da rng cnt @
            (if cnt < 0 \<or> len_clients da < cnt then []
             else [Lock, Write_cache, Unlock, RLock, RUnlock]))
      else [Lock, Write_cache, Unlock, RLock, RUnlock])"

definition CheckAuth_events :: "env \<Rightarrow> DigestAuth \<Rightarrow> Request \<Rightarrow> lock_event list" where
  "CheckAuth_events env da r =
     RLock #
     (case request_params env da r of
        None \<Rightarrow> []
      | Some auth \<Rightarrow>
          if \<not> crypto_valid env da r auth then []
          else
           (case ParseUint (get auth ''nc'') of
              None \<Rightarrow> []
            | Some n \<Rightarrow>
                Read_cache #
                (case clients da (get auth ''nonce'') of
                   None \<Rightarrow> []
                 | Some client \<Rightarrow>
                     if nc client \<noteq> 0 \<and> nc client \<ge> n \<and> \<not> IgnoreNonceCount da then []
                     else [Write_cache, Write_cache]))) @
     [RUnlock]"

text \<open>Every write of the cache in the event list happens while the exclusive lock is
  held; \<open>s\<close> is the lock held at the start of the list.\<close>

fun writes_exclusive :: "lock_mode \<Rightarrow> lock_event list \<Rightarrow> bool" where
  "writes_exclusive s [] = True"
| "writes_exclusive s (Lock # es) = writes_exclusive Exclusive es"
| "writes_exclusive s (RLock # es) = writes_exclusive Shared es"
| "writes_exclusive s (Unlock # es) = writes_exclusive Unlocked es"
| "writes_exclusive s (RUnlock # es) = writes_exclusive Unlocked es"
| "writes_exclusive s (Read_cache # es) = writes_exclusive s es"
| "writes_exclusive s (Write_cache # es) = (s = Exclusive \<and> writes_exclusive s es)"

subsection \<open>A concrete environment\<close>

text \<open>The closed instances below are evaluated in this environment: the digest
  function \<open>example_H\<close> wraps its argument in a tag, \<^verbatim>\<open>ToUpper\<close> is the identity (all
  names in the instances are upper case already), \<^verbatim>\<open>url.Parse\<close> takes the whole string
  as the path, and \<^verbatim>\<open>ParsePairs\<close> reads its argument as the \<^verbatim>\<open>nc\<close> of a parameter list
  for user \<open>u\<close> and qop \<open>q\<close> whose response is computed as the protocol says from
  what the secret lookup returns for \<open>u\<close>. The secret lookup knows the user \<^verbatim>\<open>alice\<close>
  and returns the empty string for every other name.\<close>

definition example_H :: "string \<Rightarrow> string" where
  "example_H s = ''H('' @ s @ '')''"

definition example_secrets :: "string \<Rightarrow> string \<Rightarrow> string" where
  "example_secrets user realm = (if user = ''alice'' \<and> realm = ''users'' then ''ha1'' else [])"

definition example_params :: "string \<Rightarrow> string \<Rightarrow> string \<Rightarrow> (string \<rightharpoonup> string)" where
  "example_params u q n =
     map_of [(''username'', u), (''realm'', ''users''), (''nonce'', ''n0''), (''uri'', ''/''),
             (''qop'', q), (''nc'', n), (''cnonce'', ''c0''), (''opaque'', ''op''),
             (''algorithm'', ''MD5''),
             (''response'',
              example_H (Join [example_secrets u ''users'', ''n0'', n, ''c0'', q,
                               example_H ''GET:/''] '':''))]"

definition example_headers :: Headers where
  "example_headers =
     \<lparr>Authenticate = ''WWW-Authenticate'', Authorization = ''Authorization'',
      AuthInfo = ''Authentication-Info'', UnauthCode = 401,
      UnauthContentType = ''text/plain'', UnauthResponse = ''401 Unauthorized''\<rparr>"

definition example_env :: "string \<Rightarrow> string \<Rightarrow> env" where
  "example_env u q =
     \<lparr>ParsePairs = (\<lambda>s. Some (example_params u q s)),
      algorithms = [''MD5'' \<mapsto> example_H],
      ToUpper = (\<lambda>s. s),
      url_Parse = (\<lambda>s. Some \<lparr>Path = s\<rparr>),
      V = (\<lambda>h. example_headers),
      contentType = ''Content-Type''\<rparr>"

definition example_da :: DigestAuth where
  "example_da =
     \<lparr>Algorithm = ''MD5'', Realm = ''users'', Opaque = ''op'',
      Secrets = example_secrets, PlainTextSecrets = False, IgnoreNonceCount = False,
      Headers = None, ClientCacheSize = 1000, ClientCacheTolerance = 100,
      clients = [''n0'' \<mapsto> \<lparr>nc = 0, last_seen = 0\<rparr>]\<rparr>"

definition example_request :: "string \<Rightarrow> Request" where
  "example_request n =
     \<lparr>Method = ''GET'', RequestURI = ''/'', URL = Some \<lparr>Path = ''/''\<rparr>,
      Header_Get = (\<lambda>k. if k = ''Authorization'' then ''Digest '' @ n else [])\<rparr>"

text \<open>An authenticator with an empty cache, and five issuances.\<close>

definition example_cache :: "int \<Rightarrow> int \<Rightarrow> DigestAuth" where
  "example_cache s t =
     example_da\<lparr>ClientCacheSize := s, ClientCacheTolerance := t, clients := Map.empty\<rparr>"

definition five_issued :: "((string \<times> digest_client) list \<times> string \<times> int) list" where
  "five_issued = [([], ''a'', 1), ([], ''b'', 2), ([], ''c'', 3), ([], ''d'', 4), ([], ''e'', 5)]"

section \<open>Properties of CheckAuth\<close>

lemma CheckAuth_steps:
  "CheckAuth env da r now =
     (case request_params env da r of
        None \<Rightarrow> ([], None, da)
      | Some auth \<Rightarrow>
          if crypto_valid env da r auth then session_step (the (hash_of env auth)) da auth now
          else ([], None, da))"
  by (auto simp add: CheckAuth_def request_params_def crypto_valid_def hash_of_def session_step_def
      KD_of_def HA1_of_def rspauth_of_def ConstantTimeCompare_def Let_def
      split: option.splits)

lemma crypto_valid_hash: "crypto_valid env da r auth \<Longrightarrow> \<exists>H. hash_of env auth = Some H"
  by (auto simp: crypto_valid_def split: option.splits)

lemma request_params_clients [simp]:
  "request_params env (da\<lparr>clients := m\<rparr>) r = request_params env da r"
  by (simp add: request_params_def)

lemma crypto_valid_clients [simp]:
  "crypto_valid env (da\<lparr>clients := m\<rparr>) r auth = crypto_valid env da r auth"
  by (simp add: crypto_valid_def KD_of_def HA1_of_def split: option.splits)

lemma rspauth_of_clients [simp]:
  "rspauth_of H (da\<lparr>clients := m\<rparr>) auth = rspauth_of H da auth"
  by (simp add: rspauth_of_def HA1_of_def)

lemma CheckAuth_accept:
  assumes "request_params env da r = Some auth" and "crypto_valid env da r auth"
    and "hash_of env auth = Some H"
    and "ParseUint (get auth ''nc'') = Some n"
    and "clients da (get auth ''nonce'') = Some client"
    and "nc client = 0 \<or> nc client < n \<or> IgnoreNonceCount da"
  shows "CheckAuth env da r now =
           (get auth ''username'',
            Some (authinfo_string (rspauth_of H da auth) (get auth ''cnonce'') (get auth ''nc'')),
            da\<lparr>clients := (clients da)(get auth ''nonce'' \<mapsto> client\<lparr>nc := n, last_seen := now\<rparr>)\<rparr>)"
  using assms by (auto simp: CheckAuth_steps session_step_def)

lemma CheckAuth_replayed:
  assumes "request_params env da r = Some auth"
    and "ParseUint (get auth ''nc'') = Some n"
    and "clients da (get auth ''nonce'') = Some client"
    and "nc client \<noteq> 0" and "n \<le> nc client" and "\<not> IgnoreNonceCount da"
  shows "CheckAuth env da r now = ([], None, da)"
  using assms by (auto simp: CheckAuth_steps session_step_def)

lemma CheckAuth_nil_authinfo:
  assumes "CheckAuth env da r now = (username, None, da')"
  shows "username = [] \<and> da' = da"
  using assms by (auto simp: CheckAuth_steps session_step_def split: option.splits if_splits)

lemma CheckAuth_accepted_ex:
  assumes "CheckAuth env da r now = (username, Some info, da')"
  shows "\<exists>auth H n client. request_params env da r = Some auth \<and> crypto_valid env da r auth \<and>
    hash_of env auth = Some H \<and> ParseUint (get auth ''nc'') = Some n \<and>
    clients da (get auth ''nonce'') = Some client \<and>
    (nc client = 0 \<or> nc client < n \<or> IgnoreNonceCount da) \<and>
    username = get auth ''username'' \<and>
    info = authinfo_string (rspauth_of H da auth) (get auth ''cnonce'') (get auth ''nc'') \<and>
    da' = da\<lparr>clients := (clients da)(get auth ''nonce'' \<mapsto> client\<lparr>nc := n, last_seen := now\<rparr>)\<rparr>"
proof -
  from assms obtain auth where a: "request_params env da r = Some auth"
    and v: "crypto_valid env da r auth"
    and s: "session_step (the (hash_of env auth)) da auth now = (username, Some info, da')"
    by (auto simp: CheckAuth_steps split: option.splits if_splits)
  from v obtain H where H: "hash_of env auth = Some H"
    by (auto simp: crypto_valid_def split: option.splits)
  from s H obtain n client where n: "ParseUint (get auth ''nc'') = Some n"
    and c: "clients da (get auth ''nonce'') = Some client"
    and ok: "\<not> (nc client \<noteq> 0 \<and> nc client \<ge> n \<and> \<not> IgnoreNonceCount da)"
    and res: "username = get auth ''username''"
      "info = authinfo_string (rspauth_of H da auth) (get auth ''cnonce'') (get auth ''nc'')"
      "da' = da\<lparr>clients := (clients da)(get auth ''nonce'' \<mapsto> client\<lparr>nc := n, last_seen := now\<rparr>)\<rparr>"
    by (auto simp: session_step_def split: option.splits if_splits)
  from ok have "nc client = 0 \<or> nc client < n \<or> IgnoreNonceCount da"
    by (auto simp: not_le)
  with a v H n c res show ?thesis by blast
qed

lemma digest_client_overwrite [simp]:
  "(client :: digest_client)\<lparr>nc := n, last_seen := t\<rparr> = \<lparr>nc = n, last_seen = t\<rparr>"
  by (cases client) simp

lemma with_session_fields [simp]:
  "clients (with_session da nonce c) = (clients da)(nonce \<mapsto> c)"
  "IgnoreNonceCount (with_session da nonce c) = IgnoreNonceCount da"
  by (simp_all add: with_session_def)

lemma with_session_twice [simp]:
  "with_session (with_session da nonce c) nonce c' = with_session da nonce c'"
  by (simp add: with_session_def)

lemma request_params_with_session [simp]:
  "request_params env (with_session da nonce c) r = request_params env da r"
  by (simp add: with_session_def)

lemma crypto_valid_with_session [simp]:
  "crypto_valid env (with_session da nonce c) r auth = crypto_valid env da r auth"
  by (simp add: with_session_def)

lemma CheckAuth_accept_session:
  assumes "request_params env da r = Some auth" and "crypto_valid env da r auth"
    and "ParseUint (get auth ''nc'') = Some n"
    and "clients da (get auth ''nonce'') = Some client"
    and "nc client = 0 \<or> nc client < n \<or> IgnoreNonceCount da"
  shows "\<exists>info. CheckAuth env da r now =
           (get auth ''username'', Some info,
            with_session da (get auth ''nonce'') \<lparr>nc = n, last_seen = now\<rparr>)"
proof -
  from assms(2) obtain H where "hash_of env auth = Some H"
    using crypto_valid_hash by blast
  from CheckAuth_accept [OF assms(1,2) this assms(3,4,5)] show ?thesis
    by (simp add: with_session_def)
qed

subsection \<open>The concrete environment, evaluated\<close>

lemma example_request_params:
  "request_params (example_env u q) (example_da\<lparr>clients := m\<rparr>) (example_request n) =
     Some (example_params u q n)"
  by (simp add: request_params_def DigestAuthParams_def SplitN_space_2_def example_env_def
      example_da_def example_request_def example_headers_def example_params_def)

lemma example_get:
  "get (example_params u q n) ''username'' = u"
  "get (example_params u q n) ''nonce'' = ''n0''"
  "get (example_params u q n) ''uri'' = ''/''"
  "get (example_params u q n) ''qop'' = q"
  "get (example_params u q n) ''nc'' = n"
  "get (example_params u q n) ''cnonce'' = ''c0''"
  "get (example_params u q n) ''opaque'' = ''op''"
  "get (example_params u q n) ''algorithm'' = ''MD5''"
  "get (example_params u q n) ''response'' =
     example_H (Join [example_secrets u ''users'', ''n0'', n, ''c0'', q, example_H ''GET:/''] '':'')"
  by (simp_all add: get_def example_params_def)

lemma example_hash_of: "hash_of (example_env u q) (example_params u q n) = Some example_H"
  by (simp add: hash_of_def example_get example_env_def)

lemma example_crypto_valid:
  "crypto_valid (example_env u ''auth'') (example_da\<lparr>clients := m\<rparr>) (example_request n)
     (example_params u ''auth'' n)"
  unfolding crypto_valid_def example_hash_of
  by (simp add: example_get example_env_def example_da_def example_request_def uri_matches_def
      KD_of_def HA1_of_def)

lemma example_da_clients: "example_da\<lparr>clients := clients example_da\<rparr> = example_da"
  by simp

lemma example_rspauth:
  "rspauth_of example_H example_da (example_params u ''auth'' n) =
     ''H('' @ example_secrets u ''users'' @ '':n0:'' @ n @ '':c0:auth:H(:/))''"
  by (simp add: rspauth_of_def HA1_of_def example_get example_da_def example_H_def)

lemma ParseUint_examples:
  "ParseUint ''0'' = Some 0" "ParseUint ''1'' = Some 1" "ParseUint ''2'' = Some 2"
  "ParseUint ''3'' = Some 3"
  by (simp_all add: ParseUint_def hex_digit_def)

lemma example_params_at:
  "request_params (example_env u q) example_da (example_request n) = Some (example_params u q n)"
  using example_request_params [of u q "clients example_da" n]
  by (simp only: example_da_clients)

lemma example_valid_at:
  "crypto_valid (example_env u ''auth'') example_da (example_request n) (example_params u ''auth'' n)"
  using example_crypto_valid [of u "clients example_da" n]
  by (simp only: example_da_clients)

lemma example_da_n0: "clients example_da ''n0'' = Some \<lparr>nc = 0, last_seen = 0\<rparr>"
  by (simp add: example_da_def)

subsection \<open>Opaque and qop gating\<close>

text \<open>Claim C9. A request whose \<^verbatim>\<open>opaque\<close> parameter differs from the configured opaque
  token, or whose \<^verbatim>\<open>qop\<close> parameter is not the string \<^verbatim>\<open>auth\<close>, is rejected: \<^verbatim>\<open>CheckAuth\<close>
  returns the empty username and a nil \<^verbatim>\<open>authinfo\<close> and leaves the authenticator as it was,
  whatever the other parameters are (the response, the nonce, the counter). A parameter
  that is absent reads as the empty string.\<close>

theorem opaque_qop_gating:
  assumes "request_params env da r = Some auth"
    and "get auth ''opaque'' \<noteq> Opaque da \<or> get auth ''qop'' \<noteq> ''auth''"
  shows "CheckAuth env da r now = ([], None, da)"
  using assms by (auto simp: CheckAuth_steps crypto_valid_def)

text \<open>An instance: the response is computed correctly for \<^verbatim>\<open>qop=auth-int\<close>, the opaque
  token is the configured one, and the request is rejected.\<close>

theorem opaque_qop_gating_witness:
  "request_params (example_env ''alice'' ''auth-int'') example_da (example_request ''1'') =
     Some (example_params ''alice'' ''auth-int'' ''1'') \<and>
   get (example_params ''alice'' ''auth-int'' ''1'') ''opaque'' = Opaque example_da \<and>
   get (example_params ''alice'' ''auth-int'' ''1'') ''qop'' \<noteq> ''auth'' \<and>
   CheckAuth (example_env ''alice'' ''auth-int'') example_da (example_request ''1'') 5 =
     ([], None, example_da)"
proof -
  have p: "request_params (example_env ''alice'' ''auth-int'') example_da (example_request ''1'') =
     Some (example_params ''alice'' ''auth-int'' ''1'')"
    using example_request_params [of "''alice''" "''auth-int''" "clients example_da" "''1''"]
    by (simp only: example_da_clients)
  have q: "get (example_params ''alice'' ''auth-int'' ''1'') ''qop'' \<noteq> ''auth''"
    by (simp add: example_get)
  have o: "get (example_params ''alice'' ''auth-int'' ''1'') ''opaque'' = Opaque example_da"
    by (simp add: example_get example_da_def)
  from q have "get (example_params ''alice'' ''auth-int'' ''1'') ''opaque'' \<noteq> Opaque example_da \<or>
      get (example_params ''alice'' ''auth-int'' ''1'') ''qop'' \<noteq> ''auth''"
    by simp
  from opaque_qop_gating [OF p this] p q o show ?thesis by simp
qed

subsection \<open>The confirmation string\<close>

text \<open>Claim C10. When \<^verbatim>\<open>CheckAuth\<close> accepts (it returns a non-nil \<^verbatim>\<open>authinfo\<close>), the
  \<^verbatim>\<open>authinfo\<close> is the string
  \<^verbatim>\<open>qop="auth", rspauth="<rspauth>", cnonce="<cnonce>", nc="<nc>"\<close> with the \<^verbatim>\<open>cnonce\<close> and
  \<^verbatim>\<open>nc\<close> strings of the request, where \<^verbatim>\<open>rspauth\<close> is
  \<^verbatim>\<open>H(HA1:nonce:nc:cnonce:qop:H(":"+uri))\<close>: the second digest has no method before the
  colon. \<open>H\<close> is the digest function the request selects, \<open>HA1_of\<close> the HA1 of lines
  184-187, and the \<^verbatim>\<open>qop\<close> of an accepted request is \<^verbatim>\<open>auth\<close>.\<close>

theorem confirmation_string:
  assumes "CheckAuth env da r now = (username, Some info, da')"
  shows "\<exists>auth H. request_params env da r = Some auth \<and> hash_of env auth = Some H \<and>
           get auth ''qop'' = ''auth'' \<and>
           info = ''qop=\"auth\", rspauth=\"'' @
                  H (Join [HA1_of H da auth, get auth ''nonce'', get auth ''nc'', get auth ''cnonce'',
                           ''auth'', H ('':'' @ get auth ''uri'')] '':'') @
                  ''\", cnonce=\"'' @ get auth ''cnonce'' @ ''\", nc=\"'' @ get auth ''nc'' @ ''\"''"
proof -
  from CheckAuth_accepted_ex [OF assms] obtain auth H where a: "request_params env da r = Some auth"
    "crypto_valid env da r auth" "hash_of env auth = Some H"
    "info = authinfo_string (rspauth_of H da auth) (get auth ''cnonce'') (get auth ''nc'')"
    by blast
  from a(2) have q: "get auth ''qop'' = ''auth''" by (simp add: crypto_valid_def)
  from a(4) q have "info = ''qop=\"auth\", rspauth=\"'' @
                  H (Join [HA1_of H da auth, get auth ''nonce'', get auth ''nc'', get auth ''cnonce'',
                           ''auth'', H ('':'' @ get auth ''uri'')] '':'') @
                  ''\", cnonce=\"'' @ get auth ''cnonce'' @ ''\", nc=\"'' @ get auth ''nc'' @ ''\"''"
    by (simp add: authinfo_string_def rspauth_of_def)
  with a(1,3) q show ?thesis by blast
qed


theorem confirmation_string_witness:
  "CheckAuth (example_env ''alice'' ''auth'') example_da (example_request ''1'') 5 =
     (''alice'', Some ''qop=\"auth\", rspauth=\"H(ha1:n0:1:c0:auth:H(:/))\", cnonce=\"c0\", nc=\"1\"'',
      example_da\<lparr>clients := (clients example_da)(''n0'' \<mapsto> \<lparr>nc = 1, last_seen = 5\<rparr>)\<rparr>) \<and>
   (\<exists>auth H.
      request_params (example_env ''alice'' ''auth'') example_da (example_request ''1'') = Some auth \<and>
      hash_of (example_env ''alice'' ''auth'') auth = Some H \<and> get auth ''qop'' = ''auth'' \<and>
      ''qop=\"auth\", rspauth=\"H(ha1:n0:1:c0:auth:H(:/))\", cnonce=\"c0\", nc=\"1\"'' =
        ''qop=\"auth\", rspauth=\"'' @
        H (Join [HA1_of H example_da auth, get auth ''nonce'', get auth ''nc'', get auth ''cnonce'',
                 ''auth'', H ('':'' @ get auth ''uri'')] '':'') @
        ''\", cnonce=\"'' @ get auth ''cnonce'' @ ''\", nc=\"'' @ get auth ''nc'' @ ''\"'')"
proof -
  have p: "request_params (example_env ''alice'' ''auth'') example_da (example_request ''1'') =
     Some (example_params ''alice'' ''auth'' ''1'')"
    using example_request_params [of "''alice''" "''auth''" "clients example_da" "''1''"]
    by (simp only: example_da_clients)
  have v: "crypto_valid (example_env ''alice'' ''auth'') example_da (example_request ''1'')
     (example_params ''alice'' ''auth'' ''1'')"
    using example_crypto_valid [of "''alice''" "clients example_da" "''1''"]
    by (simp only: example_da_clients)
  have c: "clients example_da (get (example_params ''alice'' ''auth'' ''1'') ''nonce'') =
      Some \<lparr>nc = 0, last_seen = 0\<rparr>"
    by (simp add: example_get example_da_def)
  have h: "CheckAuth (example_env ''alice'' ''auth'') example_da (example_request ''1'') 5 =
     (''alice'', Some ''qop=\"auth\", rspauth=\"H(ha1:n0:1:c0:auth:H(:/))\", cnonce=\"c0\", nc=\"1\"'',
      example_da\<lparr>clients := (clients example_da)(''n0'' \<mapsto> \<lparr>nc = 1, last_seen = 5\<rparr>)\<rparr>)"
    using CheckAuth_accept [OF p v example_hash_of _ c, of 1 5]
    by (simp add: example_get ParseUint_examples example_rspauth authinfo_string_def
        example_secrets_def)
  from confirmation_string [OF h] h show ?thesis by simp
qed

subsection \<open>Round trip\<close>

text \<open>Claim C7. A correctly formed request is accepted. The parameters parse; the
  algorithm is registered; \<^verbatim>\<open>opaque\<close> is the configured token and \<^verbatim>\<open>qop\<close> is \<^verbatim>\<open>auth\<close>; the
  digest \<^verbatim>\<open>uri\<close> matches the request (lines 163-182); the response is
  \<^verbatim>\<open>H(HA1:nonce:nc:cnonce:auth:H(method:uri))\<close> where HA1 is what the secret lookup returns
  for the user and the realm, rehashed as \<^verbatim>\<open>H(username:realm:secret)\<close> in plaintext-secret
  mode; the nonce is in the cache; \<^verbatim>\<open>nc\<close> is a hexadecimal number greater than the counter
  stored for the nonce. Then \<^verbatim>\<open>CheckAuth\<close> returns the username of the request with a
  non-nil \<^verbatim>\<open>authinfo\<close>, and the session holds the new counter and the time of the call.
  This is the return of line 217; the callers take it for an acceptance when the
  username is not empty.\<close>

theorem round_trip_accepted:
  assumes params: "request_params env da r = Some auth"
    and alg: "hash_of env auth = Some H"
    and opaque: "get auth ''opaque'' = Opaque da"
    and qop: "get auth ''qop'' = ''auth''"
    and uri: "uri_matches env r (get auth ''uri'')"
    and user: "get auth ''username'' = username"
    and HA1: "HA1_value = (if PlainTextSecrets da
                     then H (username @ '':'' @ Realm da @ '':'' @ Secrets da username (Realm da))
                     else Secrets da username (Realm da))"
    and response: "get auth ''response'' =
                     H (Join [HA1_value, get auth ''nonce'', get auth ''nc'', get auth ''cnonce'', ''auth'',
                              H (Method r @ '':'' @ get auth ''uri'')] '':'')"
    and nonce: "clients da (get auth ''nonce'') = Some client"
    and counter: "ParseUint (get auth ''nc'') = Some n" "nc client < n"
  shows "\<exists>info. CheckAuth env da r now =
           (username, Some info,
            da\<lparr>clients := (clients da)(get auth ''nonce'' \<mapsto> \<lparr>nc = n, last_seen = now\<rparr>)\<rparr>)"
proof -
  have v: "crypto_valid env da r auth"
    using alg opaque qop uri user HA1 response
    by (simp add: crypto_valid_def KD_of_def HA1_of_def)
  from counter(2) have "nc client = 0 \<or> nc client < n \<or> IgnoreNonceCount da" by simp
  from CheckAuth_accept [OF params v alg counter(1) nonce this] user show ?thesis
    by simp
qed

theorem round_trip_accepted_witness:
  "request_params (example_env ''alice'' ''auth'') example_da (example_request ''1'') =
     Some (example_params ''alice'' ''auth'' ''1'') \<and>
   get (example_params ''alice'' ''auth'' ''1'') ''response'' = ''H(ha1:n0:1:c0:auth:H(GET:/))'' \<and>
   clients example_da ''n0'' = Some \<lparr>nc = 0, last_seen = 0\<rparr> \<and>
   ParseUint ''1'' = Some 1 \<and>
   (\<exists>info. CheckAuth (example_env ''alice'' ''auth'') example_da (example_request ''1'') 5 =
      (''alice'', Some info,
       example_da\<lparr>clients := (clients example_da)(''n0'' \<mapsto> \<lparr>nc = 1, last_seen = 5\<rparr>)\<rparr>))"
proof -
  let ?P = "example_params ''alice'' ''auth'' ''1''"
  have resp: "get ?P ''response'' = ''H(ha1:n0:1:c0:auth:H(GET:/))''"
    by (simp add: example_get example_H_def example_secrets_def)
  have "\<exists>info. CheckAuth (example_env ''alice'' ''auth'') example_da (example_request ''1'') 5 =
      (''alice'', Some info,
       example_da\<lparr>clients := (clients example_da)(get ?P ''nonce'' \<mapsto> \<lparr>nc = 1, last_seen = 5\<rparr>)\<rparr>)"
  proof (rule round_trip_accepted [OF example_params_at example_hash_of, where HA1_value = "''ha1''"
        and client = "\<lparr>nc = 0, last_seen = 0\<rparr>"])
    show "get ?P ''opaque'' = Opaque example_da" by (simp add: example_get example_da_def)
    show "get ?P ''qop'' = ''auth''" by (simp add: example_get)
    show "uri_matches (example_env ''alice'' ''auth'') (example_request ''1'') (get ?P ''uri'')"
      by (simp add: example_get uri_matches_def example_request_def)
    show "get ?P ''username'' = ''alice''" by (simp add: example_get)
    show "''ha1'' = (if PlainTextSecrets example_da
           then example_H (''alice'' @ '':'' @ Realm example_da @ '':'' @
                           Secrets example_da ''alice'' (Realm example_da))
           else Secrets example_da ''alice'' (Realm example_da))"
      by (simp add: example_da_def example_secrets_def)
    show "get ?P ''response'' =
        example_H (Join [''ha1'', get ?P ''nonce'', get ?P ''nc'', get ?P ''cnonce'', ''auth'',
                         example_H (Method (example_request ''1'') @ '':'' @ get ?P ''uri'')] '':'')"
      by (simp add: example_get example_request_def example_secrets_def)
    show "clients example_da (get ?P ''nonce'') = Some \<lparr>nc = 0, last_seen = 0\<rparr>"
      by (simp add: example_get example_da_n0)
    show "ParseUint (get ?P ''nc'') = Some 1" by (simp add: example_get ParseUint_examples)
    show "nc \<lparr>nc = 0, last_seen = 0\<rparr> < (1 :: 64 word)" by simp
  qed
  with resp example_params_at [of "''alice''" "''auth''" "''1''"] example_da_n0 ParseUint_examples(2)
  show ?thesis by (simp add: example_get)
qed

subsection \<open>Counter monotonicity\<close>

text \<open>Claim C1. Three requests for one nonce pass the checks of lines 138-193
  (\<open>crypto_valid\<close>) and carry the counters 1, 2 and 3; the nonce is registered and
  its stored counter is 0, as \<^verbatim>\<open>RequireAuth\<close> leaves it. Submitted in this order, each is
  accepted (the username of the request and a non-nil \<^verbatim>\<open>authinfo\<close> are returned) and the
  stored counter becomes 1, then 2, then 3. The request with counter 2, submitted again
  after that, is rejected and changes nothing when \<^verbatim>\<open>IgnoreNonceCount\<close> is false; when it is
  true the request is accepted and the stored counter becomes 2.\<close>

theorem counter_monotonicity:
  assumes r1: "request_params env da r1 = Some a1" "crypto_valid env da r1 a1"
              "get a1 ''nonce'' = nonce" "ParseUint (get a1 ''nc'') = Some 1"
    and r2: "request_params env da r2 = Some a2" "crypto_valid env da r2 a2"
              "get a2 ''nonce'' = nonce" "ParseUint (get a2 ''nc'') = Some 2"
    and r3: "request_params env da r3 = Some a3" "crypto_valid env da r3 a3"
              "get a3 ''nonce'' = nonce" "ParseUint (get a3 ''nc'') = Some 3"
    and reg: "clients da nonce = Some c" "nc c = 0"
  shows "\<exists>i1 i2 i3.
      CheckAuth env da r1 t1 =
        (get a1 ''username'', Some i1, with_session da nonce \<lparr>nc = 1, last_seen = t1\<rparr>) \<and>
      CheckAuth env (with_session da nonce \<lparr>nc = 1, last_seen = t1\<rparr>) r2 t2 =
        (get a2 ''username'', Some i2, with_session da nonce \<lparr>nc = 2, last_seen = t2\<rparr>) \<and>
      CheckAuth env (with_session da nonce \<lparr>nc = 2, last_seen = t2\<rparr>) r3 t3 =
        (get a3 ''username'', Some i3, with_session da nonce \<lparr>nc = 3, last_seen = t3\<rparr>) \<and>
      (if IgnoreNonceCount da
       then \<exists>i4. CheckAuth env (with_session da nonce \<lparr>nc = 3, last_seen = t3\<rparr>) r2 t4 =
              (get a2 ''username'', Some i4, with_session da nonce \<lparr>nc = 2, last_seen = t4\<rparr>)
       else CheckAuth env (with_session da nonce \<lparr>nc = 3, last_seen = t3\<rparr>) r2 t4 =
              ([], None, with_session da nonce \<lparr>nc = 3, last_seen = t3\<rparr>))"
proof -
  let ?s = "\<lambda>v t. with_session da nonce \<lparr>nc = v, last_seen = t\<rparr>"
  have s1: "\<exists>i1. CheckAuth env da r1 t1 = (get a1 ''username'', Some i1, ?s 1 t1)"
    using CheckAuth_accept_session [OF r1(1,2,4), of c t1] r1(3) reg by simp
  have s2: "\<exists>i2. CheckAuth env (?s 1 t1) r2 t2 = (get a2 ''username'', Some i2, ?s 2 t2)"
    using CheckAuth_accept_session [of env "?s 1 t1" r2 a2 2 "\<lparr>nc = 1, last_seen = t1\<rparr>" t2]
      r2 by simp
  have s3: "\<exists>i3. CheckAuth env (?s 2 t2) r3 t3 = (get a3 ''username'', Some i3, ?s 3 t3)"
    using CheckAuth_accept_session [of env "?s 2 t2" r3 a3 3 "\<lparr>nc = 2, last_seen = t2\<rparr>" t3]
      r3 by simp
  have s4: "IgnoreNonceCount da \<Longrightarrow>
      \<exists>i4. CheckAuth env (?s 3 t3) r2 t4 = (get a2 ''username'', Some i4, ?s 2 t4)"
    using CheckAuth_accept_session [of env "?s 3 t3" r2 a2 2 "\<lparr>nc = 3, last_seen = t3\<rparr>" t4]
      r2 by simp
  have s5: "\<not> IgnoreNonceCount da \<Longrightarrow> CheckAuth env (?s 3 t3) r2 t4 = ([], None, ?s 3 t3)"
    using CheckAuth_replayed [of env "?s 3 t3" r2 a2 2 "\<lparr>nc = 3, last_seen = t3\<rparr>" t4]
      r2 by simp
  from s1 s2 s3 s4 s5 show ?thesis by (cases "IgnoreNonceCount da") auto
qed

theorem counter_monotonicity_witness:
  "\<not> IgnoreNonceCount example_da \<and> clients example_da ''n0'' = Some \<lparr>nc = 0, last_seen = 0\<rparr> \<and>
   (\<exists>i1 i2 i3.
      CheckAuth (example_env ''alice'' ''auth'') example_da (example_request ''1'') 11 =
        (''alice'', Some i1, with_session example_da ''n0'' \<lparr>nc = 1, last_seen = 11\<rparr>) \<and>
      CheckAuth (example_env ''alice'' ''auth'')
          (with_session example_da ''n0'' \<lparr>nc = 1, last_seen = 11\<rparr>) (example_request ''2'') 12 =
        (''alice'', Some i2, with_session example_da ''n0'' \<lparr>nc = 2, last_seen = 12\<rparr>) \<and>
      CheckAuth (example_env ''alice'' ''auth'')
          (with_session example_da ''n0'' \<lparr>nc = 2, last_seen = 12\<rparr>) (example_request ''3'') 13 =
        (''alice'', Some i3, with_session example_da ''n0'' \<lparr>nc = 3, last_seen = 13\<rparr>) \<and>
      CheckAuth (example_env ''alice'' ''auth'')
          (with_session example_da ''n0'' \<lparr>nc = 3, last_seen = 13\<rparr>) (example_request ''2'') 14 =
        ([], None, with_session example_da ''n0'' \<lparr>nc = 3, last_seen = 13\<rparr>))"
proof -
  have i: "\<not> IgnoreNonceCount example_da" by (simp add: example_da_def)
  have p: "\<And>n. ParseUint n = Some v \<Longrightarrow>
      ParseUint (get (example_params ''alice'' ''auth'' n) ''nc'') = Some v" for v
    by (simp add: example_get)
  have n: "\<And>n. get (example_params ''alice'' ''auth'' n) ''nonce'' = ''n0''"
    by (simp add: example_get)
  from counter_monotonicity [OF example_params_at example_valid_at n p [OF ParseUint_examples(2)]
      example_params_at example_valid_at n p [OF ParseUint_examples(3)]
      example_params_at example_valid_at n p [OF ParseUint_examples(4)]
      example_da_n0, of 11 12 13 14] i example_da_n0
  show ?thesis by (simp add: example_get)
qed

subsection \<open>The counter 0\<close>

lemma rspauth_of_with_session [simp]:
  "rspauth_of H (with_session da nonce c) auth = rspauth_of H da auth"
  by (simp add: with_session_def)

lemma CheckAuth_seq_zero:
  "request_params env da r = Some auth \<Longrightarrow> crypto_valid env da r auth \<Longrightarrow>
   ParseUint (get auth ''nc'') = Some 0 \<Longrightarrow> hash_of env auth = Some H \<Longrightarrow>
   clients da (get auth ''nonce'') = Some c \<Longrightarrow> nc c = 0 \<Longrightarrow>
   CheckAuth_seq env da (map (Pair r) (t # ts)) =
     (replicate (Suc (length ts))
        (get auth ''username'',
         Some (authinfo_string (rspauth_of H da auth) (get auth ''cnonce'') (get auth ''nc''))),
      with_session da (get auth ''nonce'') \<lparr>nc = 0, last_seen = last (t # ts)\<rparr>)"
proof (induction ts arbitrary: t da c)
  case Nil
  have "CheckAuth env da r t =
      (get auth ''username'',
       Some (authinfo_string (rspauth_of H da auth) (get auth ''cnonce'') (get auth ''nc'')),
       with_session da (get auth ''nonce'') \<lparr>nc = 0, last_seen = t\<rparr>)"
    using CheckAuth_accept [of env da r auth H 0 c t] Nil
    by (simp add: with_session_def)
  then show ?case by simp
next
  case (Cons t' ts)
  let ?d = "with_session da (get auth ''nonce'') \<lparr>nc = 0, last_seen = t\<rparr>"
  have 1: "CheckAuth env da r t =
      (get auth ''username'',
       Some (authinfo_string (rspauth_of H da auth) (get auth ''cnonce'') (get auth ''nc'')), ?d)"
    using CheckAuth_accept [of env da r auth H 0 c t] Cons.prems
    by (simp add: with_session_def)
  have 2: "CheckAuth_seq env ?d (map (Pair r) (t' # ts)) =
           (replicate (Suc (length ts))
              (get auth ''username'',
               Some (authinfo_string (rspauth_of H da auth) (get auth ''cnonce'') (get auth ''nc''))),
            with_session da (get auth ''nonce'') \<lparr>nc = 0, last_seen = last (t' # ts)\<rparr>)"
    using Cons.IH [of ?d "\<lparr>nc = 0, last_seen = t\<rparr>" t'] Cons.prems by simp
  have 3: "map (Pair r) (t # t' # ts) = (r, t) # map (Pair r) (t' # ts)" by simp
  have "CheckAuth_seq env da (map (Pair r) (t # t' # ts)) =
     ((get auth ''username'',
       Some (authinfo_string (rspauth_of H da auth) (get auth ''cnonce'') (get auth ''nc''))) #
      replicate (Suc (length ts))
              (get auth ''username'',
               Some (authinfo_string (rspauth_of H da auth) (get auth ''cnonce'') (get auth ''nc''))),
      with_session da (get auth ''nonce'') \<lparr>nc = 0, last_seen = last (t' # ts)\<rparr>)"
    by (simp only: 3 CheckAuth_seq.simps 1 prod.case 2)
  then show ?case by simp
qed

text \<open>Claim C2. A request that passes the checks of lines 138-193, whose \<^verbatim>\<open>nc\<close> parses to 0
  (the string \<^verbatim>\<open>0\<close> does), for a nonce whose stored counter is 0, is accepted and leaves
  the stored counter at 0: the test of line 206 needs a stored counter other than 0. So
  the same request is accepted every time it is submitted, however often, whether
  \<^verbatim>\<open>IgnoreNonceCount\<close> is set or not: \<open>t # ts\<close> are the times of the submissions, every
  result is the same acceptance, and the session ends with counter 0 and the last time.\<close>

theorem zero_counter_replay:
  assumes "request_params env da r = Some auth" and "crypto_valid env da r auth"
    and "ParseUint (get auth ''nc'') = Some 0"
    and "clients da (get auth ''nonce'') = Some c" and "nc c = 0"
  shows "\<exists>info. CheckAuth_seq env da (map (Pair r) (t # ts)) =
           (replicate (Suc (length ts)) (get auth ''username'', Some info),
            with_session da (get auth ''nonce'') \<lparr>nc = 0, last_seen = last (t # ts)\<rparr>)"
proof -
  from assms(2) obtain H where H: "hash_of env auth = Some H"
    using crypto_valid_hash by blast
  from CheckAuth_seq_zero [OF assms(1,2,3) H assms(4,5)] show ?thesis by blast
qed


theorem zero_counter_replay_witness:
  "ParseUint ''0'' = Some 0 \<and> \<not> IgnoreNonceCount example_da \<and>
   clients example_da ''n0'' = Some \<lparr>nc = 0, last_seen = 0\<rparr> \<and>
   (\<exists>info. CheckAuth_seq (example_env ''alice'' ''auth'') example_da
        [(example_request ''0'', 11), (example_request ''0'', 12), (example_request ''0'', 13)] =
      ([(''alice'', Some info), (''alice'', Some info), (''alice'', Some info)],
       with_session example_da ''n0'' \<lparr>nc = 0, last_seen = 13\<rparr>))"
proof -
  have i: "\<not> IgnoreNonceCount example_da" by (simp add: example_da_def)
  have p: "ParseUint (get (example_params ''alice'' ''auth'' ''0'') ''nc'') = Some 0"
    by (simp add: example_get ParseUint_examples)
  have c: "clients example_da (get (example_params ''alice'' ''auth'' ''0'') ''nonce'') =
      Some \<lparr>nc = 0, last_seen = 0\<rparr>"
    by (simp add: example_get example_da_n0)
  from zero_counter_replay [OF example_params_at example_valid_at p c, of 11 "[12, 13]"]
    i example_da_n0 ParseUint_examples(1)
  show ?thesis by (simp add: example_get numeral_3_eq_3)
qed

subsection \<open>Rejections and the cache\<close>

text \<open>Claim C4 says that a call which returns the empty username leaves the cache as it
  was. Every \<^verbatim>\<open>return "", nil\<close> does (\<open>CheckAuth_nil_authinfo\<close>), and the cache is read
  only after the response has been compared (\<open>CheckAuth_steps\<close>). But the accepting
  return of line 217 returns the \<^verbatim>\<open>username\<close> parameter of the request, which can be
  empty: the request below has an empty username and a response computed from the empty
  string, which is what the secret lookup returns for a name it does not know.
  \<^verbatim>\<open>CheckAuth\<close> returns the empty username, which its callers (lines 240 and 269) take
  for a rejection, and has moved the counter of the session from 0 to 1 and its time
  stamp from 0 to 5.\<close>

theorem empty_username_updates_session:
  "CheckAuth (example_env [] ''auth'') example_da (example_request ''1'') 5 =
     ([], Some ''qop=\"auth\", rspauth=\"H(:n0:1:c0:auth:H(:/))\", cnonce=\"c0\", nc=\"1\"'',
      example_da\<lparr>clients := (clients example_da)(''n0'' \<mapsto> \<lparr>nc = 1, last_seen = 5\<rparr>)\<rparr>) \<and>
   clients example_da ''n0'' = Some \<lparr>nc = 0, last_seen = 0\<rparr> \<and>
   clients (example_da\<lparr>clients := (clients example_da)(''n0'' \<mapsto> \<lparr>nc = 1, last_seen = 5\<rparr>)\<rparr>) ''n0'' =
     Some \<lparr>nc = 1, last_seen = 5\<rparr>"
proof -
  have c: "clients example_da (get (example_params [] ''auth'' ''1'') ''nonce'') =
      Some \<lparr>nc = 0, last_seen = 0\<rparr>"
    by (simp add: example_get example_da_n0)
  have "CheckAuth (example_env [] ''auth'') example_da (example_request ''1'') 5 =
     ([], Some ''qop=\"auth\", rspauth=\"H(:n0:1:c0:auth:H(:/))\", cnonce=\"c0\", nc=\"1\"'',
      example_da\<lparr>clients := (clients example_da)(''n0'' \<mapsto> \<lparr>nc = 1, last_seen = 5\<rparr>)\<rparr>)"
    using CheckAuth_accept [OF example_params_at example_valid_at example_hash_of _ c, of 1 5]
    by (simp add: example_get ParseUint_examples example_rspauth authinfo_string_def
        example_secrets_def)
  then show ?thesis by (simp add: example_da_n0)
qed

text \<open>So the call returns the empty username and the cache after it differs from the
  cache before it.\<close>

theorem empty_username_updates_session_witness:
  "fst (CheckAuth (example_env [] ''auth'') example_da (example_request ''1'') 5) = [] \<and>
   clients (snd (snd (CheckAuth (example_env [] ''auth'') example_da (example_request ''1'') 5))) \<noteq>
     clients example_da"
proof -
  have "((clients example_da)(''n0'' \<mapsto> \<lparr>nc = 1, last_seen = 5\<rparr>)) ''n0'' \<noteq> clients example_da ''n0''"
    by (simp add: example_da_n0)
  then have "(clients example_da)(''n0'' \<mapsto> \<lparr>nc = 1, last_seen = 5\<rparr>) \<noteq> clients example_da"
    by metis
  with empty_username_updates_session show ?thesis by simp
qed

subsection \<open>URI matching\<close>

lemma HasPrefix_iff: "HasPrefix s p \<longleftrightarrow> (\<exists>t. s = p @ t)"
  unfolding HasPrefix_def
  by (metis append_eq_conv_conj append_take_drop_id length_append le_add1)

text \<open>Claim C8. The URI check of lines 163-182 passes when the digest \<^verbatim>\<open>uri\<close> is the
  request URI; otherwise it passes exactly when \<^verbatim>\<open>url.Parse\<close> succeeds on \<^verbatim>\<open>uri\<close>, the
  request has a URL, the parsed path is no longer than the path of the request and the
  path of the request starts with it. A request that fails the check is rejected. With
  the request path \<^verbatim>\<open>/api/sub/resource\<close>, the digest uri \<^verbatim>\<open>/api\<close> passes and the digest uri
  \<^verbatim>\<open>/other\<close> does not, \<^verbatim>\<open>url.Parse\<close> giving each of them as its own path.\<close>

theorem uri_matching:
  "(uri_matches env r uri \<longleftrightarrow>
      RequestURI r = uri \<or>
      (\<exists>u ru. url_Parse env uri = Some u \<and> URL r = Some ru \<and>
               length (Path u) \<le> length (Path ru) \<and> HasPrefix (Path ru) (Path u))) \<and>
   (request_params env da r = Some auth \<and> \<not> uri_matches env r (get auth ''uri'') \<longrightarrow>
      CheckAuth env da r now = ([], None, da)) \<and>
   (RequestURI r = ''/api/sub/resource'' \<and> URL r = Some \<lparr>Path = ''/api/sub/resource''\<rparr> \<and>
    url_Parse env ''/api'' = Some \<lparr>Path = ''/api''\<rparr> \<longrightarrow> uri_matches env r ''/api'') \<and>
   (RequestURI r = ''/api/sub/resource'' \<and> URL r = Some \<lparr>Path = ''/api/sub/resource''\<rparr> \<and>
    url_Parse env ''/other'' = Some \<lparr>Path = ''/other''\<rparr> \<longrightarrow> \<not> uri_matches env r ''/other'')"
proof (intro conjI impI)
  show "uri_matches env r uri \<longleftrightarrow>
      RequestURI r = uri \<or>
      (\<exists>u ru. url_Parse env uri = Some u \<and> URL r = Some ru \<and>
               length (Path u) \<le> length (Path ru) \<and> HasPrefix (Path ru) (Path u))"
    by (auto simp: uri_matches_def split: option.splits)
next
  assume "request_params env da r = Some auth \<and> \<not> uri_matches env r (get auth ''uri'')"
  then show "CheckAuth env da r now = ([], None, da)"
    by (auto simp: CheckAuth_steps crypto_valid_def split: option.splits)
next
  assume "RequestURI r = ''/api/sub/resource'' \<and> URL r = Some \<lparr>Path = ''/api/sub/resource''\<rparr> \<and>
    url_Parse env ''/api'' = Some \<lparr>Path = ''/api''\<rparr>"
  then show "uri_matches env r ''/api''"
    by (simp add: uri_matches_def HasPrefix_def)
next
  assume "RequestURI r = ''/api/sub/resource'' \<and> URL r = Some \<lparr>Path = ''/api/sub/resource''\<rparr> \<and>
    url_Parse env ''/other'' = Some \<lparr>Path = ''/other''\<rparr>"
  then show "\<not> uri_matches env r ''/other''"
    by (simp add: uri_matches_def HasPrefix_def)
qed


theorem uri_matching_witness:
  "uri_matches (example_env ''alice'' ''auth'')
     \<lparr>Method = ''GET'', RequestURI = ''/api/sub/resource'',
      URL = Some \<lparr>Path = ''/api/sub/resource''\<rparr>, Header_Get = (\<lambda>k. [])\<rparr> ''/api'' \<and>
   \<not> uri_matches (example_env ''alice'' ''auth'')
     \<lparr>Method = ''GET'', RequestURI = ''/api/sub/resource'',
      URL = Some \<lparr>Path = ''/api/sub/resource''\<rparr>, Header_Get = (\<lambda>k. [])\<rparr> ''/other'' \<and>
   \<not> uri_matches (example_env ''alice'' ''auth'') ((example_request ''1'')\<lparr>RequestURI := ''/x'', URL := None\<rparr>)
      (get (example_params ''alice'' ''auth'' ''1'') ''uri'') \<and>
   CheckAuth (example_env ''alice'' ''auth'') example_da
      ((example_request ''1'')\<lparr>RequestURI := ''/x'', URL := None\<rparr>) 5 = ([], None, example_da)"
proof -
  let ?E = "example_env ''alice'' ''auth''"
  let ?R = "\<lparr>Method = ''GET'', RequestURI = ''/api/sub/resource'',
      URL = Some \<lparr>Path = ''/api/sub/resource''\<rparr>, Header_Get = (\<lambda>k. [])\<rparr>"
  let ?R' = "(example_request ''1'')\<lparr>RequestURI := ''/x'', URL := None\<rparr>"
  have u: "url_Parse ?E ''/api'' = Some \<lparr>Path = ''/api''\<rparr>"
    "url_Parse ?E ''/other'' = Some \<lparr>Path = ''/other''\<rparr>"
    by (simp_all add: example_env_def)
  have r: "RequestURI ?R = ''/api/sub/resource''" "URL ?R = Some \<lparr>Path = ''/api/sub/resource''\<rparr>"
    by simp_all
  have p: "request_params ?E example_da ?R' = Some (example_params ''alice'' ''auth'' ''1'')"
    using example_params_at [of "''alice''" "''auth''" "''1''"]
    by (simp add: request_params_def example_request_def)
  have n: "\<not> uri_matches ?E ?R' (get (example_params ''alice'' ''auth'' ''1'') ''uri'')"
    by (simp add: uri_matches_def example_get example_request_def example_env_def)
  note A = uri_matching [of ?E ?R "''/api''" example_da "example_params ''alice'' ''auth'' ''1''" 5]
  note B = uri_matching [of ?E ?R' "''/api''" example_da "example_params ''alice'' ''auth'' ''1''" 5]
  have 1: "uri_matches ?E ?R ''/api''"
    using A [THEN conjunct2, THEN conjunct2, THEN conjunct1] u r by blast
  have 2: "\<not> uri_matches ?E ?R ''/other''"
    using A [THEN conjunct2, THEN conjunct2, THEN conjunct2] u r by blast
  have 3: "CheckAuth ?E example_da ?R' 5 = ([], None, example_da)"
    using B [THEN conjunct2, THEN conjunct1] p n by blast
  from 1 2 n 3 show ?thesis by blast
qed

section \<open>Properties of Purge and RequireAuth\<close>

subsection \<open>Purge removes the oldest entries\<close>

lemma foldl_delete:
  "foldl (\<lambda>m client. m(e_nonce client := None)) m es = m |` (- e_nonce ` set es)"
proof (induction es arbitrary: m)
  case Nil
  show ?case by simp
next
  case (Cons e es)
  have "foldl (\<lambda>m client. m(e_nonce client := None)) m (e # es) =
        (m(e_nonce e := None)) |` (- e_nonce ` set es)"
    using Cons.IH [of "m(e_nonce e := None)"] by (simp only: foldl_Cons)
  also have "\<dots> = m |` (- e_nonce ` set (e # es))"
    by (rule ext) (simp add: restrict_map_def)
  finally show ?case .
qed

lemma nonces_entries_of [simp]: "map e_nonce (entries_of rng) = map fst rng"
  by (induction rng) (auto simp: entries_of_def)

lemma length_entries_of [simp]: "length (entries_of rng) = length rng"
  by (simp add: entries_of_def)

lemma is_range_dom: "is_range m rng \<Longrightarrow> dom m = set (map fst rng)"
  by (force simp: is_range_def dom_map_of_conv_image_fst)

lemma is_range_card: "is_range m rng \<Longrightarrow> card (dom m) = length rng"
  using distinct_card [of "map fst rng"] by (simp add: is_range_dom is_range_def)

lemma is_range_lookup:
  "is_range m rng \<Longrightarrow> m a = Some c \<longleftrightarrow> (a, c) \<in> set rng"
  by (auto simp: is_range_def)

lemma entry_in_entries_of:
  "x \<in> set (entries_of rng) \<longleftrightarrow> (\<exists>c. (e_nonce x, c) \<in> set rng \<and> e_last_seen x = last_seen c)"
  by (cases x) (auto simp: entries_of_def)

lemma nonces_sort_Sort:
  "mset (map e_nonce (sort_Sort es)) = mset (map e_nonce es)"
  by (simp add: sort_Sort_def)

lemma distinct_nonces_sort_Sort:
  "distinct (map e_nonce (sort_Sort es)) = distinct (map e_nonce es)"
  using nonces_sort_Sort [of es] by (metis mset_eq_imp_distinct_iff)

lemma Purge_result:
  assumes "0 \<le> cnt" and "cnt \<le> len_clients da"
  shows "Purge da rng cnt =
     Inr (da\<lparr>clients := clients da |` (- e_nonce ` set (take (nat cnt) (sort_Sort (entries_of rng))))\<rparr>)"
  using assms by (simp add: Purge_def foldl_delete Let_def)

lemma Purge_panics:
  "cnt < 0 \<or> len_clients da < cnt \<Longrightarrow> Purge da rng cnt = Inl SliceBoundsOutOfRange"
  by (auto simp add: Purge_def Let_def)

lemma Purge_removes_oldest:
  assumes rng: "is_range (clients da) rng" and c0: "0 \<le> cnt" and c1: "cnt \<le> len_clients da"
  shows "\<exists>R. Purge da rng cnt = Inr (da\<lparr>clients := clients da |` (- R)\<rparr>) \<and>
             oldest_in (clients da) R \<and> int (card R) = cnt"
proof -
  let ?m = "clients da"
  let ?cache = "sort_Sort (entries_of rng)"
  let ?k = "nat cnt"
  let ?R = "e_nonce ` set (take ?k ?cache)"
  have len: "length ?cache = length rng" by (simp add: sort_Sort_def)
  have k: "?k \<le> length ?cache"
    using c0 c1 is_range_card [OF rng] by (simp add: len len_clients_def)
  have set_cache: "set ?cache = set (entries_of rng)" by (simp add: sort_Sort_def)
  have dist: "distinct (map e_nonce ?cache)"
    using rng by (simp add: distinct_nonces_sort_Sort is_range_def)
  have "distinct (map e_nonce (take ?k ?cache))"
    using dist distinct_take [of "map e_nonce ?cache" ?k] by (simp only: take_map)
  then have "card ?R = length (take ?k ?cache)"
    using distinct_card [of "map e_nonce (take ?k ?cache)"] by simp
  with k c0 have card: "int (card ?R) = cnt" by simp
  have sub: "?R \<subseteq> dom ?m"
  proof
    fix a assume "a \<in> ?R"
    then obtain x where "x \<in> set (take ?k ?cache)" "a = e_nonce x" by auto
    then have "x \<in> set ?cache" by (meson in_set_takeD)
    then have "x \<in> set (entries_of rng)" using set_cache by simp
    with \<open>a = e_nonce x\<close> show "a \<in> dom ?m"
      using is_range_lookup [OF rng] by (auto simp: entry_in_entries_of)
  qed
  have sorted: "sorted (map e_last_seen (take ?k ?cache @ drop ?k ?cache))"
    by (simp add: sort_Sort_def)
  have old: "last_seen ca \<le> last_seen cb"
    if a: "a \<in> ?R" and b: "b \<in> dom ?m - ?R" and ca: "?m a = Some ca" and cb: "?m b = Some cb"
    for a b ca cb
  proof -
    from a obtain x where x: "x \<in> set (take ?k ?cache)" "a = e_nonce x" by auto
    then have "x \<in> set ?cache" by (meson in_set_takeD)
    then have "x \<in> set (entries_of rng)" using set_cache by simp
    then obtain c where "(a, c) \<in> set rng" "e_last_seen x = last_seen c"
      using x(2) by (auto simp: entry_in_entries_of)
    moreover from this(1) have "clients da a = Some c"
      using is_range_lookup [OF rng] by simp
    ultimately have xa: "e_last_seen x = last_seen ca"
      using ca by simp
    from cb have "(b, cb) \<in> set rng" using is_range_lookup [OF rng] by simp
    then have "\<lparr>e_nonce = b, e_last_seen = last_seen cb\<rparr> \<in> set (entries_of rng)"
      by (auto simp: entry_in_entries_of)
    then have "\<lparr>e_nonce = b, e_last_seen = last_seen cb\<rparr> \<in> set ?cache"
      using set_cache by simp
    moreover have "set ?cache = set (take ?k ?cache) \<union> set (drop ?k ?cache)"
      by (metis append_take_drop_id set_append)
    moreover have "\<lparr>e_nonce = b, e_last_seen = last_seen cb\<rparr> \<notin> set (take ?k ?cache)"
      using b by force
    ultimately have y: "\<lparr>e_nonce = b, e_last_seen = last_seen cb\<rparr> \<in> set (drop ?k ?cache)"
      by blast
    from sorted have "\<forall>u\<in>set (take ?k ?cache). \<forall>v\<in>set (drop ?k ?cache). e_last_seen u \<le> e_last_seen v"
      unfolding map_append sorted_append by simp
    with x(1) y have "e_last_seen x \<le> e_last_seen \<lparr>e_nonce = b, e_last_seen = last_seen cb\<rparr>"
      by blast
    with xa show ?thesis by simp
  qed
  from sub old have "oldest_in ?m ?R" unfolding oldest_in_def by blast
  with Purge_result [OF c0 c1, of rng] card show ?thesis by blast
qed

text \<open>Every ascending arrangement of the entries of the cache is the sorted slice for
  some order of the \<^verbatim>\<open>range\<close>.\<close>

lemma sort_Sort_every_order:
  assumes rng: "is_range m rng"
    and perm: "mset cache = mset (entries_of rng)"
    and asc: "sorted (map e_last_seen cache)"
  shows "\<exists>rng'. is_range m rng' \<and> sort_Sort (entries_of rng') = cache"
proof -
  let ?g = "\<lambda>e. (e_nonce e, the (m (e_nonce e)))"
  let ?rng' = "map ?g cache"
  have set_cache: "set cache = set (entries_of rng)" using perm by (rule mset_eq_setD)
  have same: "\<lparr>e_nonce = e_nonce e, e_last_seen = last_seen (the (m (e_nonce e)))\<rparr> = e"
    if "e \<in> set cache" for e
  proof -
    from that set_cache obtain c where "(e_nonce e, c) \<in> set rng" "e_last_seen e = last_seen c"
      by (auto simp: entry_in_entries_of)
    moreover from this(1) have "m (e_nonce e) = Some c" using is_range_lookup [OF rng] by simp
    ultimately show ?thesis by simp
  qed
  have entries: "entries_of ?rng' = cache"
    using same by (simp add: entries_of_def map_idI)
  have "mset (map e_nonce cache) = mset (map fst rng)"
    using perm by (metis mset_map nonces_entries_of)
  then have nonces: "distinct (map e_nonce cache)" "set (map e_nonce cache) = set (map fst rng)"
    using rng by (metis is_range_def mset_eq_imp_distinct_iff, metis mset_eq_setD)
  have dist: "distinct (map fst ?rng')" using nonces(1) by (simp add: comp_def)
  have "map_of ?rng' k = m k" for k
  proof (cases "m k")
    case None
    then have "k \<notin> set (map fst rng)" using is_range_dom [OF rng] by auto
    then have "k \<notin> fst ` set ?rng'" using nonces(2) by (simp add: image_image)
    then have "map_of ?rng' k = None" by (rule map_of_eq_None_iff [THEN iffD2])
    with None show ?thesis by simp
  next
    case (Some c)
    then have "(k, c) \<in> set rng" using is_range_lookup [OF rng] by simp
    then have "\<lparr>e_nonce = k, e_last_seen = last_seen c\<rparr> \<in> set cache"
      using set_cache by (auto simp: entry_in_entries_of)
    then have "?g \<lparr>e_nonce = k, e_last_seen = last_seen c\<rparr> \<in> ?g ` set cache" by (rule imageI)
    then have "(k, c) \<in> set ?rng'" using Some by simp
    with dist have "map_of ?rng' k = Some c" by (rule map_of_is_SomeI)
    with Some show ?thesis by simp
  qed
  then have "map_of ?rng' = m" by (rule ext)
  with dist have "is_range m ?rng'" by (simp add: is_range_def)
  moreover have "sort_Sort (entries_of ?rng') = cache"
    unfolding entries using asc by (simp add: sort_Sort_def sort_key_id_if_sorted)
  ultimately show ?thesis by blast
qed

lemma wrap_int_id: "- (2 ^ 63) \<le> x \<Longrightarrow> x < 2 ^ 63 \<Longrightarrow> wrap_int x = x"
  by (simp add: wrap_int_def)

lemma RequireAuth_no_purge:
  assumes "len_clients da \<le> wrap_int (ClientCacheSize da + ClientCacheTolerance da)"
  shows "RequireAuth env da rng nonce now =
           Inr (with_session da nonce \<lparr>nc = 0, last_seen = now\<rparr>,
                unauthorized_response env (with_session da nonce \<lparr>nc = 0, last_seen = now\<rparr>) nonce)"
  using assms by (simp add: RequireAuth_def with_session_def Let_def)

lemma RequireAuth_purge:
  assumes "wrap_int (ClientCacheSize da + ClientCacheTolerance da) < len_clients da"
  shows "RequireAuth env da rng nonce now =
          (case Purge da rng (wrap_int (ClientCacheTolerance da * 2)) of
             Inl p \<Rightarrow> Inl p
           | Inr da1 \<Rightarrow>
               Inr (with_session da1 nonce \<lparr>nc = 0, last_seen = now\<rparr>,
                    unauthorized_response env (with_session da1 nonce \<lparr>nc = 0, last_seen = now\<rparr>) nonce))"
  using assms by (simp add: RequireAuth_def with_session_def Let_def split: sum.splits)

subsection \<open>Issuing challenges\<close>

lemma config_with_session [simp]:
  "ClientCacheSize (with_session da nonce c) = ClientCacheSize da"
  "ClientCacheTolerance (with_session da nonce c) = ClientCacheTolerance da"
  by (simp_all add: with_session_def)

lemma RequireAuth_seq_snoc:
  "RequireAuth_seq env da (cs @ [(rng, nonce, now)]) =
     (case RequireAuth_seq env da cs of
        Inl p \<Rightarrow> Inl p
      | Inr da' \<Rightarrow>
          (case RequireAuth env da' rng nonce now of
             Inl p \<Rightarrow> Inl p
           | Inr (da'', calls) \<Rightarrow> Inr da''))"
  by (induction cs arbitrary: da) (auto split: sum.splits)

lemma len_clients_map_of:
  "clients da = map_of xs \<Longrightarrow> len_clients da \<le> int (length xs)"
proof -
  assume "clients da = map_of xs"
  then have "dom (clients da) = set (map fst xs)" by (simp add: dom_map_of_conv_image_fst)
  then have "card (dom (clients da)) \<le> length (map fst xs)" by (simp only: card_length)
  then show ?thesis by (simp add: len_clients_def)
qed

lemma RequireAuth_seq_no_purge:
  assumes cfg: "0 \<le> ClientCacheSize da" "0 \<le> ClientCacheTolerance da"
      "ClientCacheSize da + ClientCacheTolerance da < 2 ^ 62"
    and empty: "clients da = Map.empty"
  shows "int (length cs) \<le> ClientCacheSize da + ClientCacheTolerance da + 1 \<Longrightarrow>
     RequireAuth_seq env da cs = Inr (da\<lparr>clients := map_of (rev (map issued_session cs))\<rparr>)"
proof (induction cs rule: rev_induct)
  case Nil
  show ?case using empty by simp
next
  case (snoc c cs)
  obtain rng nonce now where c: "c = (rng, nonce, now)" by (cases c) auto
  let ?d = "da\<lparr>clients := map_of (rev (map issued_session cs))\<rparr>"
  from snoc have IH: "RequireAuth_seq env da cs = Inr ?d" by simp
  have "len_clients ?d \<le> int (length (rev (map issued_session cs)))"
    by (rule len_clients_map_of) simp
  with snoc.prems have small: "len_clients ?d \<le> ClientCacheSize ?d + ClientCacheTolerance ?d"
    by simp
  have w: "wrap_int (ClientCacheSize ?d + ClientCacheTolerance ?d) =
      ClientCacheSize ?d + ClientCacheTolerance ?d"
    using cfg by (intro wrap_int_id) simp_all
  have R: "RequireAuth env ?d rng nonce now =
      Inr (with_session ?d nonce \<lparr>nc = 0, last_seen = now\<rparr>,
           unauthorized_response env (with_session ?d nonce \<lparr>nc = 0, last_seen = now\<rparr>) nonce)"
    using small by (intro RequireAuth_no_purge) (simp only: w)
  have eq: "map_of (rev (map issued_session (cs @ [c]))) =
      (map_of (rev (map issued_session cs)))(nonce \<mapsto> \<lparr>nc = 0, last_seen = now\<rparr>)"
    by (simp add: c issued_session_def)
  have ws: "with_session ?d nonce \<lparr>nc = 0, last_seen = now\<rparr> =
      da\<lparr>clients := map_of (rev (map issued_session (cs @ [c])))\<rparr>"
    unfolding eq by (simp add: with_session_def)
  have "RequireAuth_seq env da (cs @ [c]) = Inr (with_session ?d nonce \<lparr>nc = 0, last_seen = now\<rparr>)"
    by (simp only: c RequireAuth_seq_snoc IH R sum.case prod.case)
  then show ?case by (simp only: ws)
qed

lemma map_of_rev_nth:
  assumes "distinct (map fst L)" and "i < length L"
  shows "map_of (rev L) (fst (L ! i)) = Some (snd (L ! i))"
proof -
  have "distinct (map fst (rev L))" using assms(1) by (simp add: rev_map [symmetric])
  moreover have "(fst (L ! i), snd (L ! i)) \<in> set (rev L)" using assms(2) by simp
  ultimately show ?thesis by (rule map_of_is_SomeI)
qed

lemma oldest_is_prefix:
  assumes dist: "distinct (map fst L)"
    and incr: "sorted_wrt (<) (map (last_seen \<circ> snd) L)"
    and old: "oldest_in (map_of (rev L)) R"
    and card: "card R = k" and k: "k \<le> length L"
  shows "R = set (take k (map fst L))"
proof -
  let ?m = "map_of (rev L)"
  let ?ns = "map fst L"
  have dom: "dom ?m = set ?ns" by (simp add: dom_map_of_conv_image_fst)
  from old have sub: "R \<subseteq> set ?ns" by (simp add: oldest_in_def dom)
  then have fin: "finite R" by (rule finite_subset) simp
  have later: "?ns ! i \<notin> R" if i: "i < length L" and ki: "k \<le> i" for i
  proof
    assume inR: "?ns ! i \<in> R"
    have "?ns ! j \<in> R" if j: "j \<le> i" for j
    proof (rule ccontr)
      assume out: "?ns ! j \<notin> R"
      with inR have ji: "j < i" using j by (cases "j = i") auto
      from ji i have jl: "j < length L" by simp
      have "?ns ! j \<in> dom ?m - R" using out jl by (simp add: dom)
      moreover have "?m (?ns ! i) = Some (snd (L ! i))" "?m (?ns ! j) = Some (snd (L ! j))"
        using map_of_rev_nth [OF dist] i jl by simp_all
      ultimately have "last_seen (snd (L ! i)) \<le> last_seen (snd (L ! j))"
        using old inR unfolding oldest_in_def by blast
      moreover have "last_seen (snd (L ! j)) < last_seen (snd (L ! i))"
        using incr ji i jl sorted_wrt_nth_less [of "(<)" "map (last_seen \<circ> snd) L" j i] by simp
      ultimately show False by simp
    qed
    then have "set (take (Suc i) ?ns) \<subseteq> R"
      using i by (auto simp: in_set_conv_nth)
    then have "card (set (take (Suc i) ?ns)) \<le> card R" using fin by (rule card_mono [rotated])
    moreover have "card (set (take (Suc i) ?ns)) = Suc i"
      using distinct_card [of "take (Suc i) ?ns"] dist i by simp
    ultimately show False using card ki by simp
  qed
  have "R \<subseteq> set (take k ?ns)"
  proof
    fix a assume a: "a \<in> R"
    with sub have "a \<in> set ?ns" by blast
    then obtain i where "i < length ?ns" "?ns ! i = a" unfolding in_set_conv_nth by blast
    then have i: "i < length L" "?ns ! i = a" by simp_all
    with later [of i] a have "i < k" by (cases "k \<le> i") auto
    with i show "a \<in> set (take k ?ns)" by (auto simp: in_set_conv_nth)
  qed
  moreover have "card (set (take k ?ns)) = k"
    using distinct_card [of "take k ?ns"] dist k by simp
  ultimately show ?thesis using card by (simp add: card_subset_eq)
qed

lemma map_of_rev_drop:
  assumes "distinct (map fst L)"
  shows "map_of (rev L) |` (- set (take k (map fst L))) = map_of (rev (drop k L))"
proof (rule ext)
  fix x
  have split: "rev L = rev (drop k L) @ rev (take k L)"
    by (metis append_take_drop_id rev_append)
  have disj: "set (map fst (take k L)) \<inter> set (map fst (drop k L)) = {}"
    using assms by (metis append_take_drop_id distinct_append map_append)
  show "(map_of (rev L) |` (- set (take k (map fst L)))) x = map_of (rev (drop k L)) x"
  proof (cases "x \<in> set (take k (map fst L))")
    case True
    then have "x \<notin> fst ` set (rev (drop k L))" using disj by (auto simp: take_map)
    then have "map_of (rev (drop k L)) x = None" by (rule map_of_eq_None_iff [THEN iffD2])
    with True show ?thesis by simp
  next
    case False
    then have "x \<notin> fst ` set (rev (take k L))" by (simp add: take_map)
    then have "map_of (rev (take k L)) x = None" by (rule map_of_eq_None_iff [THEN iffD2])
    then have "map_of (rev L) x = map_of (rev (drop k L)) x"
      unfolding split by (simp add: map_add_def split: option.splits)
    with False show ?thesis by simp
  qed
qed

lemma fst_issued_session: "map fst (map issued_session cs) = map (fst \<circ> snd) cs"
  by (simp add: issued_session_def comp_def)

lemma seen_issued_session:
  "map (last_seen \<circ> snd) (map issued_session cs) = map (snd \<circ> snd) cs"
  by (simp add: issued_session_def comp_def)

lemma len_clients_map_of_distinct:
  "distinct (map fst L) \<Longrightarrow> clients da = map_of (rev L) \<Longrightarrow> len_clients da = int (length L)"
  using distinct_card [of "map fst L"]
  by (simp add: len_clients_def dom_map_of_conv_image_fst)

lemma RequireAuth_purges_oldest:
  assumes cfg: "0 \<le> ClientCacheSize da" "0 \<le> ClientCacheTolerance da"
      "ClientCacheSize da + ClientCacheTolerance da < 2 ^ 62"
    and big: "ClientCacheSize da + ClientCacheTolerance da < len_clients da"
    and fits: "2 * ClientCacheTolerance da \<le> len_clients da"
    and rng: "is_range (clients da) rng"
  shows "\<exists>R. oldest_in (clients da) R \<and> int (card R) = 2 * ClientCacheTolerance da \<and>
            RequireAuth env da rng nonce now =
              Inr (with_session (da\<lparr>clients := clients da |` (- R)\<rparr>) nonce \<lparr>nc = 0, last_seen = now\<rparr>,
                   unauthorized_response env
                     (with_session (da\<lparr>clients := clients da |` (- R)\<rparr>) nonce \<lparr>nc = 0, last_seen = now\<rparr>)
                     nonce)"
proof -
  have w1: "wrap_int (ClientCacheSize da + ClientCacheTolerance da) =
      ClientCacheSize da + ClientCacheTolerance da"
    using cfg by (intro wrap_int_id) simp_all
  have w2: "wrap_int (ClientCacheTolerance da * 2) = 2 * ClientCacheTolerance da"
    using cfg wrap_int_id [of "ClientCacheTolerance da * 2"] by simp
  from cfg(2) have c0: "0 \<le> 2 * ClientCacheTolerance da" by simp
  from Purge_removes_oldest [OF rng c0 fits] obtain R where
    R: "Purge da rng (2 * ClientCacheTolerance da) = Inr (da\<lparr>clients := clients da |` (- R)\<rparr>)"
       "oldest_in (clients da) R" "int (card R) = 2 * ClientCacheTolerance da"
    by blast
  have "RequireAuth env da rng nonce now =
      Inr (with_session (da\<lparr>clients := clients da |` (- R)\<rparr>) nonce \<lparr>nc = 0, last_seen = now\<rparr>,
           unauthorized_response env
             (with_session (da\<lparr>clients := clients da |` (- R)\<rparr>) nonce \<lparr>nc = 0, last_seen = now\<rparr>)
             nonce)"
    using big by (simp only: RequireAuth_purge w1 w2 R(1) sum.case)
  with R(2,3) show ?thesis by blast
qed

lemma issue_after_filling:
  assumes cfg: "0 \<le> ClientCacheSize da" "0 \<le> ClientCacheTolerance da"
      "ClientCacheSize da + ClientCacheTolerance da < 2 ^ 62"
    and empty: "clients da = Map.empty"
    and n: "int (length issued) = ClientCacheSize da + ClientCacheTolerance da + 1"
    and dist: "distinct (map (fst \<circ> snd) issued)"
    and incr: "sorted_wrt (<) (map (snd \<circ> snd) issued)"
    and fits: "ClientCacheTolerance da \<le> ClientCacheSize da + 1"
    and fresh: "nonce \<notin> set (map (fst \<circ> snd) issued)"
    and rng: "is_range (map_of (rev (map issued_session issued))) rng"
  shows "RequireAuth_seq env da (issued @ [(rng, nonce, now)]) =
           Inr (da\<lparr>clients :=
                  (map_of (rev (map issued_session (drop (nat (2 * ClientCacheTolerance da)) issued))))
                  (nonce \<mapsto> \<lparr>nc = 0, last_seen = now\<rparr>)\<rparr>)"
    and "len_clients (da\<lparr>clients :=
                  (map_of (rev (map issued_session (drop (nat (2 * ClientCacheTolerance da)) issued))))
                  (nonce \<mapsto> \<lparr>nc = 0, last_seen = now\<rparr>)\<rparr>) =
           ClientCacheSize da - ClientCacheTolerance da + 2"
proof -
  let ?L = "map issued_session issued"
  let ?m = "map_of (rev ?L)"
  let ?d1 = "da\<lparr>clients := ?m\<rparr>"
  let ?k = "nat (2 * ClientCacheTolerance da)"
  have seq: "RequireAuth_seq env da issued = Inr ?d1"
    using RequireAuth_seq_no_purge [OF cfg empty, of issued env] n by simp
  have distL: "distinct (map fst ?L)" using dist by (simp only: fst_issued_session)
  have len1: "len_clients ?d1 = int (length issued)"
    using len_clients_map_of_distinct [OF distL, of ?d1] by simp
  have big: "ClientCacheSize ?d1 + ClientCacheTolerance ?d1 < len_clients ?d1"
    using len1 n by simp
  have fits1: "2 * ClientCacheTolerance ?d1 \<le> len_clients ?d1"
    using len1 n fits by simp
  have rng1: "is_range (clients ?d1) rng" using rng by simp
  have cfg1: "0 \<le> ClientCacheSize ?d1" "0 \<le> ClientCacheTolerance ?d1"
      "ClientCacheSize ?d1 + ClientCacheTolerance ?d1 < 2 ^ 62"
    using cfg by simp_all
  from RequireAuth_purges_oldest [OF cfg1 big fits1 rng1, of env nonce now]
  obtain R where R: "oldest_in ?m R" "int (card R) = 2 * ClientCacheTolerance da"
    and req: "RequireAuth env ?d1 rng nonce now =
       Inr (with_session (?d1\<lparr>clients := ?m |` (- R)\<rparr>) nonce \<lparr>nc = 0, last_seen = now\<rparr>,
            unauthorized_response env
              (with_session (?d1\<lparr>clients := ?m |` (- R)\<rparr>) nonce \<lparr>nc = 0, last_seen = now\<rparr>) nonce)"
    by auto
  have k: "?k \<le> length ?L" using n fits cfg by simp
  have cardR: "card R = ?k" using R(2) cfg(2) by simp
  have incrL: "sorted_wrt (<) (map (last_seen \<circ> snd) ?L)"
    using incr by (simp only: seen_issued_session)
  have "R = set (take ?k (map fst ?L))"
    by (rule oldest_is_prefix [OF distL incrL R(1) cardR k])
  then have "?m |` (- R) = map_of (rev (drop ?k ?L))"
    using map_of_rev_drop [OF distL, of ?k] by simp
  then have rest: "?m |` (- R) = map_of (rev (map issued_session (drop ?k issued)))"
    by (simp add: drop_map)
  have d2: "with_session (?d1\<lparr>clients := ?m |` (- R)\<rparr>) nonce \<lparr>nc = 0, last_seen = now\<rparr> =
      da\<lparr>clients := (map_of (rev (map issued_session (drop ?k issued))))
                       (nonce \<mapsto> \<lparr>nc = 0, last_seen = now\<rparr>)\<rparr>"
    unfolding rest by (simp add: with_session_def)
  show "RequireAuth_seq env da (issued @ [(rng, nonce, now)]) =
           Inr (da\<lparr>clients := (map_of (rev (map issued_session (drop ?k issued))))
                  (nonce \<mapsto> \<lparr>nc = 0, last_seen = now\<rparr>)\<rparr>)"
    by (simp only: RequireAuth_seq_snoc seq req sum.case prod.case d2)
  have distD: "distinct (map fst (map issued_session (drop ?k issued)))"
    using distinct_drop [OF dist, of ?k] by (simp only: fst_issued_session drop_map)
  have "set (drop ?k (map (fst \<circ> snd) issued)) \<subseteq> set (map (fst \<circ> snd) issued)"
    by (rule set_drop_subset)
  with fresh have notin: "nonce \<notin> set (map fst (map issued_session (drop ?k issued)))"
    by (auto simp only: fst_issued_session drop_map)
  let ?X = "map issued_session (drop ?k issued)"
  have "dom (map_of (rev ?X)) = set (map fst ?X)"
    by (simp only: dom_map_of_conv_image_fst set_rev set_map)
  then have "dom ((map_of (rev ?X))(nonce \<mapsto> \<lparr>nc = 0, last_seen = now\<rparr>)) =
      insert nonce (set (map fst ?X))"
    by simp
  moreover have "card (insert nonce (set (map fst ?X))) = Suc (card (set (map fst ?X)))"
    using notin by (intro card_insert_disjoint) simp_all
  moreover have "card (set (map fst ?X)) = length (drop ?k issued)"
    using distinct_card [OF distD] by simp
  ultimately have "card (dom ((map_of (rev ?X))(nonce \<mapsto> \<lparr>nc = 0, last_seen = now\<rparr>))) =
        Suc (length (drop ?k issued))"
    by (simp only:)
  then show "len_clients (da\<lparr>clients :=
                  (map_of (rev (map issued_session (drop ?k issued))))
                  (nonce \<mapsto> \<lparr>nc = 0, last_seen = now\<rparr>)\<rparr>) =
           ClientCacheSize da - ClientCacheTolerance da + 2"
    using n fits cfg by (simp add: len_clients_def)
qed

lemma example_cache_fields [simp]:
  "ClientCacheSize (example_cache s t) = s" "ClientCacheTolerance (example_cache s t) = t"
  "clients (example_cache s t) = Map.empty"
  by (simp_all add: example_cache_def)

subsection \<open>The size bound\<close>

text \<open>Claim C6, amended. The size and the tolerance are not negative and their sum is
  below \<open>2^62\<close>, so that the two \<^verbatim>\<open>int\<close> expressions of lines 91 and 93 do not wrap.
  \<^item> An issuance with at most \<^verbatim>\<open>ClientCacheSize + ClientCacheTolerance\<close> entries in the
    cache purges nothing: it registers the nonce with counter 0 and the time of the call.
  \<^item> An issuance with more entries, at least \<^verbatim>\<open>2 * ClientCacheTolerance\<close> of them, removes a
    set \<open>R\<close> of exactly \<^verbatim>\<open>2 * ClientCacheTolerance\<close> entries, none of them seen later than
    an entry that stays, and then registers the nonce.
  \<^item> Starting with an empty cache, \<^verbatim>\<open>ClientCacheSize + ClientCacheTolerance + 1\<close> challenges
    are issued, with distinct nonces and increasing times, and nothing else happens. If
    \<^verbatim>\<open>ClientCacheTolerance \<le> ClientCacheSize + 1\<close>, the next issuance, with a new nonce, leaves
    the sessions of all but the first \<^verbatim>\<open>2 * ClientCacheTolerance\<close> issued nonces as they
    were, and the new session: \<^verbatim>\<open>ClientCacheSize - ClientCacheTolerance + 2\<close> entries. That
    is below \<^verbatim>\<open>ClientCacheSize + ClientCacheTolerance\<close> exactly when the tolerance is at
    least 2.\<close>

theorem lazy_size_bound:
  assumes cfg: "0 \<le> ClientCacheSize da" "0 \<le> ClientCacheTolerance da"
      "ClientCacheSize da + ClientCacheTolerance da < 2 ^ 62"
  shows
   "(len_clients da \<le> ClientCacheSize da + ClientCacheTolerance da \<longrightarrow>
       RequireAuth env da rng nonce now =
         Inr (with_session da nonce \<lparr>nc = 0, last_seen = now\<rparr>,
              unauthorized_response env (with_session da nonce \<lparr>nc = 0, last_seen = now\<rparr>) nonce)) \<and>
    (ClientCacheSize da + ClientCacheTolerance da < len_clients da \<and>
     2 * ClientCacheTolerance da \<le> len_clients da \<and> is_range (clients da) rng \<longrightarrow>
       (\<exists>R. oldest_in (clients da) R \<and> int (card R) = 2 * ClientCacheTolerance da \<and>
            RequireAuth env da rng nonce now =
              Inr (with_session (da\<lparr>clients := clients da |` (- R)\<rparr>) nonce \<lparr>nc = 0, last_seen = now\<rparr>,
                   unauthorized_response env
                     (with_session (da\<lparr>clients := clients da |` (- R)\<rparr>) nonce \<lparr>nc = 0, last_seen = now\<rparr>)
                     nonce))) \<and>
    (clients da = Map.empty \<and>
     int (length issued) = ClientCacheSize da + ClientCacheTolerance da + 1 \<and>
     distinct (map (fst \<circ> snd) issued) \<and> sorted_wrt (<) (map (snd \<circ> snd) issued) \<and>
     ClientCacheTolerance da \<le> ClientCacheSize da + 1 \<and>
     nonce \<notin> set (map (fst \<circ> snd) issued) \<and>
     is_range (map_of (rev (map issued_session issued))) rng \<longrightarrow>
       RequireAuth_seq env da (issued @ [(rng, nonce, now)]) =
         Inr (da\<lparr>clients :=
                (map_of (rev (map issued_session (drop (nat (2 * ClientCacheTolerance da)) issued))))
                (nonce \<mapsto> \<lparr>nc = 0, last_seen = now\<rparr>)\<rparr>) \<and>
       len_clients (da\<lparr>clients :=
                (map_of (rev (map issued_session (drop (nat (2 * ClientCacheTolerance da)) issued))))
                (nonce \<mapsto> \<lparr>nc = 0, last_seen = now\<rparr>)\<rparr>) =
         ClientCacheSize da - ClientCacheTolerance da + 2 \<and>
       (ClientCacheSize da - ClientCacheTolerance da + 2 < ClientCacheSize da + ClientCacheTolerance da
          \<longleftrightarrow> 2 \<le> ClientCacheTolerance da))"
proof (intro conjI impI)
  assume "len_clients da \<le> ClientCacheSize da + ClientCacheTolerance da"
  moreover have "wrap_int (ClientCacheSize da + ClientCacheTolerance da) =
      ClientCacheSize da + ClientCacheTolerance da"
    using cfg by (intro wrap_int_id) simp_all
  ultimately show "RequireAuth env da rng nonce now =
         Inr (with_session da nonce \<lparr>nc = 0, last_seen = now\<rparr>,
              unauthorized_response env (with_session da nonce \<lparr>nc = 0, last_seen = now\<rparr>) nonce)"
    by (intro RequireAuth_no_purge) simp
next
  assume "ClientCacheSize da + ClientCacheTolerance da < len_clients da \<and>
     2 * ClientCacheTolerance da \<le> len_clients da \<and> is_range (clients da) rng"
  then show "\<exists>R. oldest_in (clients da) R \<and> int (card R) = 2 * ClientCacheTolerance da \<and>
            RequireAuth env da rng nonce now =
              Inr (with_session (da\<lparr>clients := clients da |` (- R)\<rparr>) nonce \<lparr>nc = 0, last_seen = now\<rparr>,
                   unauthorized_response env
                     (with_session (da\<lparr>clients := clients da |` (- R)\<rparr>) nonce \<lparr>nc = 0, last_seen = now\<rparr>)
                     nonce)"
    using RequireAuth_purges_oldest [OF cfg] by blast
next
  assume a: "clients da = Map.empty \<and>
     int (length issued) = ClientCacheSize da + ClientCacheTolerance da + 1 \<and>
     distinct (map (fst \<circ> snd) issued) \<and> sorted_wrt (<) (map (snd \<circ> snd) issued) \<and>
     ClientCacheTolerance da \<le> ClientCacheSize da + 1 \<and>
     nonce \<notin> set (map (fst \<circ> snd) issued) \<and>
     is_range (map_of (rev (map issued_session issued))) rng"
  then show "RequireAuth_seq env da (issued @ [(rng, nonce, now)]) =
         Inr (da\<lparr>clients :=
                (map_of (rev (map issued_session (drop (nat (2 * ClientCacheTolerance da)) issued))))
                (nonce \<mapsto> \<lparr>nc = 0, last_seen = now\<rparr>)\<rparr>)"
    using issue_after_filling(1) [OF cfg] by blast
  from a show "len_clients (da\<lparr>clients :=
                (map_of (rev (map issued_session (drop (nat (2 * ClientCacheTolerance da)) issued))))
                (nonce \<mapsto> \<lparr>nc = 0, last_seen = now\<rparr>)\<rparr>) =
         ClientCacheSize da - ClientCacheTolerance da + 2"
    using issue_after_filling(2) [OF cfg] by blast
  show "ClientCacheSize da - ClientCacheTolerance da + 2 < ClientCacheSize da + ClientCacheTolerance da
          \<longleftrightarrow> 2 \<le> ClientCacheTolerance da"
    by auto
qed

text \<open>An instance with size 2 and tolerance 2: the first issuance purges nothing; after
  five issuances the sixth removes the four oldest sessions and leaves two.\<close>

theorem lazy_size_bound_witness:
  "RequireAuth (example_env [] []) (example_cache 2 2) [] ''a'' 1 =
     Inr (with_session (example_cache 2 2) ''a'' \<lparr>nc = 0, last_seen = 1\<rparr>,
          unauthorized_response (example_env [] [])
            (with_session (example_cache 2 2) ''a'' \<lparr>nc = 0, last_seen = 1\<rparr>) ''a'') \<and>
   RequireAuth_seq (example_env [] []) (example_cache 2 2)
       (five_issued @ [(rev (map issued_session five_issued), ''f'', 6)]) =
     Inr ((example_cache 2 2)\<lparr>clients :=
            [''e'' \<mapsto> \<lparr>nc = 0, last_seen = 5\<rparr>, ''f'' \<mapsto> \<lparr>nc = 0, last_seen = 6\<rparr>]\<rparr>) \<and>
   len_clients ((example_cache 2 2)\<lparr>clients :=
            [''e'' \<mapsto> \<lparr>nc = 0, last_seen = 5\<rparr>, ''f'' \<mapsto> \<lparr>nc = 0, last_seen = 6\<rparr>]\<rparr>) = 2 \<and>
   (\<exists>R. oldest_in (map_of (rev (map issued_session five_issued))) R \<and> card R = 4)"
proof -
  let ?E = "example_env [] []"
  let ?D = "example_cache 2 2"
  let ?D5 = "?D\<lparr>clients := map_of (rev (map issued_session five_issued))\<rparr>"
  have cfg: "0 \<le> ClientCacheSize ?D" "0 \<le> ClientCacheTolerance ?D"
      "ClientCacheSize ?D + ClientCacheTolerance ?D < 2 ^ 62"
    by simp_all
  have cfg5: "0 \<le> ClientCacheSize ?D5" "0 \<le> ClientCacheTolerance ?D5"
      "ClientCacheSize ?D5 + ClientCacheTolerance ?D5 < 2 ^ 62"
    by simp_all
  have len0: "len_clients ?D = 0" by (simp add: len_clients_def)
  have len5: "len_clients ?D5 = 5"
    using len_clients_map_of_distinct [of "map issued_session five_issued" ?D5]
    by (simp add: five_issued_def issued_session_def)
  have rng: "is_range (map_of (rev (map issued_session five_issued)))
      (rev (map issued_session five_issued))"
    by (simp add: is_range_def five_issued_def issued_session_def)
  have 1: "RequireAuth ?E ?D [] ''a'' 1 =
     Inr (with_session ?D ''a'' \<lparr>nc = 0, last_seen = 1\<rparr>,
          unauthorized_response ?E (with_session ?D ''a'' \<lparr>nc = 0, last_seen = 1\<rparr>) ''a'')"
    using lazy_size_bound [OF cfg, THEN conjunct1, of ?E "[]" "''a''" 1] len0 by simp
  have 2: "\<exists>R. oldest_in (map_of (rev (map issued_session five_issued))) R \<and> card R = 4"
    using lazy_size_bound [OF cfg5, THEN conjunct2, THEN conjunct1,
        of "rev (map issued_session five_issued)" ?E "''f''" 6] len5 rng
    by auto
  have 3: "RequireAuth_seq ?E ?D (five_issued @ [(rev (map issued_session five_issued), ''f'', 6)]) =
         Inr (?D\<lparr>clients :=
                (map_of (rev (map issued_session (drop (nat (2 * ClientCacheTolerance ?D)) five_issued))))
                (''f'' \<mapsto> \<lparr>nc = 0, last_seen = 6\<rparr>)\<rparr>) \<and>
       len_clients (?D\<lparr>clients :=
                (map_of (rev (map issued_session (drop (nat (2 * ClientCacheTolerance ?D)) five_issued))))
                (''f'' \<mapsto> \<lparr>nc = 0, last_seen = 6\<rparr>)\<rparr>) =
         ClientCacheSize ?D - ClientCacheTolerance ?D + 2 \<and>
       (ClientCacheSize ?D - ClientCacheTolerance ?D + 2 < ClientCacheSize ?D + ClientCacheTolerance ?D
          \<longleftrightarrow> 2 \<le> ClientCacheTolerance ?D)"
    using lazy_size_bound [OF cfg, THEN conjunct2, THEN conjunct2,
        of five_issued "''f''" "rev (map issued_session five_issued)" ?E 6] rng
    by (simp add: five_issued_def)
  have d: "(map_of (rev (map issued_session (drop (nat (2 * ClientCacheTolerance ?D)) five_issued))))
                (''f'' \<mapsto> \<lparr>nc = 0, last_seen = 6\<rparr>) =
       [''e'' \<mapsto> \<lparr>nc = 0, last_seen = 5\<rparr>, ''f'' \<mapsto> \<lparr>nc = 0, last_seen = 6\<rparr>]"
    by (simp add: five_issued_def issued_session_def)
  from 1 2 3 show ?thesis unfolding d by simp
qed

text \<open>The claim as stated, for every configuration, fails for tolerance 0: with size 1,
  two challenges fill the cache beyond the threshold 1, the next issuance purges
  \<open>2 * 0\<close> entries and leaves three.\<close>

theorem lazy_size_bound_counterexample:
  "RequireAuth_seq (example_env [] []) (example_cache 1 0) [([], ''a'', 1), ([], ''b'', 2)] =
     Inr ((example_cache 1 0)\<lparr>clients :=
            [''a'' \<mapsto> \<lparr>nc = 0, last_seen = 1\<rparr>, ''b'' \<mapsto> \<lparr>nc = 0, last_seen = 2\<rparr>]\<rparr>) \<and>
   RequireAuth_seq (example_env [] []) (example_cache 1 0)
      [([], ''a'', 1), ([], ''b'', 2),
       ([(''b'', \<lparr>nc = 0, last_seen = 2\<rparr>), (''a'', \<lparr>nc = 0, last_seen = 1\<rparr>)], ''c'', 3)] =
     Inr ((example_cache 1 0)\<lparr>clients :=
            [''a'' \<mapsto> \<lparr>nc = 0, last_seen = 1\<rparr>, ''b'' \<mapsto> \<lparr>nc = 0, last_seen = 2\<rparr>,
             ''c'' \<mapsto> \<lparr>nc = 0, last_seen = 3\<rparr>]\<rparr>) \<and>
   len_clients ((example_cache 1 0)\<lparr>clients :=
            [''a'' \<mapsto> \<lparr>nc = 0, last_seen = 1\<rparr>, ''b'' \<mapsto> \<lparr>nc = 0, last_seen = 2\<rparr>,
             ''c'' \<mapsto> \<lparr>nc = 0, last_seen = 3\<rparr>]\<rparr>) = 3 \<and>
   ClientCacheSize (example_cache 1 0) + ClientCacheTolerance (example_cache 1 0) = 1 \<and>
   \<not> len_clients ((example_cache 1 0)\<lparr>clients :=
            [''a'' \<mapsto> \<lparr>nc = 0, last_seen = 1\<rparr>, ''b'' \<mapsto> \<lparr>nc = 0, last_seen = 2\<rparr>,
             ''c'' \<mapsto> \<lparr>nc = 0, last_seen = 3\<rparr>]\<rparr>) <
     ClientCacheSize (example_cache 1 0) + ClientCacheTolerance (example_cache 1 0)"
proof -
  let ?E = "example_env [] []"
  let ?D = "example_cache 1 0"
  let ?I = "[([], ''a'', 1), ([], ''b'', 2)] :: ((string \<times> digest_client) list \<times> string \<times> int) list"
  let ?rng = "[(''b'', \<lparr>nc = 0, last_seen = 2\<rparr>), (''a'', \<lparr>nc = 0, last_seen = 1\<rparr>)]"
  have cfg: "0 \<le> ClientCacheSize ?D" "0 \<le> ClientCacheTolerance ?D"
      "ClientCacheSize ?D + ClientCacheTolerance ?D < 2 ^ 62"
    by simp_all
  have e: "clients ?D = Map.empty" by simp
  have 1: "RequireAuth_seq ?E ?D ?I =
     Inr (?D\<lparr>clients := [''a'' \<mapsto> \<lparr>nc = 0, last_seen = 1\<rparr>, ''b'' \<mapsto> \<lparr>nc = 0, last_seen = 2\<rparr>]\<rparr>)"
    using RequireAuth_seq_no_purge [OF cfg e, of ?I ?E] by (simp add: issued_session_def)
  have rng: "is_range (map_of (rev (map issued_session ?I))) ?rng"
    by (simp add: is_range_def issued_session_def)
  have 2: "RequireAuth_seq ?E ?D (?I @ [(?rng, ''c'', 3)]) =
     Inr (?D\<lparr>clients := [''a'' \<mapsto> \<lparr>nc = 0, last_seen = 1\<rparr>, ''b'' \<mapsto> \<lparr>nc = 0, last_seen = 2\<rparr>,
             ''c'' \<mapsto> \<lparr>nc = 0, last_seen = 3\<rparr>]\<rparr>)"
    using issue_after_filling(1) [OF cfg e _ _ _ _ _ rng, of "''c''" ?E 3]
    by (simp add: issued_session_def)
  have 3: "len_clients (?D\<lparr>clients := [''a'' \<mapsto> \<lparr>nc = 0, last_seen = 1\<rparr>, ''b'' \<mapsto> \<lparr>nc = 0, last_seen = 2\<rparr>,
             ''c'' \<mapsto> \<lparr>nc = 0, last_seen = 3\<rparr>]\<rparr>) = 3"
    using issue_after_filling(2) [OF cfg e _ _ _ _ _ rng, of "''c''" 3]
    by (simp add: issued_session_def)
  from 1 2 3 show ?thesis by simp
qed

subsection \<open>Purge beyond the size of the cache\<close>

lemma CheckAuth_malformed:
  "DigestAuthParams env (Header_Get r (Authorization (V env (Headers da)))) = None \<Longrightarrow>
   CheckAuth env da r now = ([], None, da)"
  by (simp add: CheckAuth_def)

text \<open>Claim C3 says that no operation faults, and that \<^verbatim>\<open>Purge(count)\<close> completes when
  \<^verbatim>\<open>count\<close> exceeds the number of cached sessions. \<^verbatim>\<open>CheckAuth\<close> has no faulting step
  (a header that does not parse is rejected, \<open>CheckAuth_malformed\<close>), but \<^verbatim>\<open>Purge\<close> slices
  \<^verbatim>\<open>cache[:count]\<close> without a bound check (\<open>Purge_panics\<close>). With size 0 and tolerance 2
  the fourth issuance finds three entries, more than \<open>0 + 2\<close>, and calls \<^verbatim>\<open>Purge(4)\<close>,
  which panics.\<close>

theorem purge_beyond_cache_panics:
  "len_clients ((example_cache 0 2)\<lparr>clients :=
      [''a'' \<mapsto> \<lparr>nc = 0, last_seen = 1\<rparr>, ''b'' \<mapsto> \<lparr>nc = 0, last_seen = 2\<rparr>,
       ''c'' \<mapsto> \<lparr>nc = 0, last_seen = 3\<rparr>]\<rparr>) = 3 \<and>
   Purge ((example_cache 0 2)\<lparr>clients :=
      [''a'' \<mapsto> \<lparr>nc = 0, last_seen = 1\<rparr>, ''b'' \<mapsto> \<lparr>nc = 0, last_seen = 2\<rparr>,
       ''c'' \<mapsto> \<lparr>nc = 0, last_seen = 3\<rparr>]\<rparr>)
     [(''c'', \<lparr>nc = 0, last_seen = 3\<rparr>), (''b'', \<lparr>nc = 0, last_seen = 2\<rparr>),
      (''a'', \<lparr>nc = 0, last_seen = 1\<rparr>)] 4 = Inl SliceBoundsOutOfRange \<and>
   RequireAuth_seq (example_env [] []) (example_cache 0 2)
     [([], ''a'', 1), ([], ''b'', 2), ([], ''c'', 3),
      ([(''c'', \<lparr>nc = 0, last_seen = 3\<rparr>), (''b'', \<lparr>nc = 0, last_seen = 2\<rparr>),
        (''a'', \<lparr>nc = 0, last_seen = 1\<rparr>)], ''d'', 4)] = Inl SliceBoundsOutOfRange"
proof -
  let ?E = "example_env [] []"
  let ?D = "example_cache 0 2"
  let ?I = "[([], ''a'', 1), ([], ''b'', 2), ([], ''c'', 3)] ::
      ((string \<times> digest_client) list \<times> string \<times> int) list"
  let ?rng = "[(''c'', \<lparr>nc = 0, last_seen = 3\<rparr>), (''b'', \<lparr>nc = 0, last_seen = 2\<rparr>),
      (''a'', \<lparr>nc = 0, last_seen = 1\<rparr>)]"
  let ?D3 = "?D\<lparr>clients := map_of (rev (map issued_session ?I))\<rparr>"
  have cfg: "0 \<le> ClientCacheSize ?D" "0 \<le> ClientCacheTolerance ?D"
      "ClientCacheSize ?D + ClientCacheTolerance ?D < 2 ^ 62"
    by simp_all
  have e: "clients ?D = Map.empty" by simp
  have m: "map_of (rev (map issued_session ?I)) =
      [''a'' \<mapsto> \<lparr>nc = 0, last_seen = 1\<rparr>, ''b'' \<mapsto> \<lparr>nc = 0, last_seen = 2\<rparr>,
       ''c'' \<mapsto> \<lparr>nc = 0, last_seen = 3\<rparr>]"
    by (simp add: issued_session_def)
  have 1: "RequireAuth_seq ?E ?D ?I = Inr ?D3"
    using RequireAuth_seq_no_purge [OF cfg e, of ?I ?E] by simp
  have len: "len_clients ?D3 = 3"
    using len_clients_map_of_distinct [of "map issued_session ?I" ?D3]
    by (simp add: issued_session_def)
  have p: "Purge ?D3 ?rng 4 = Inl SliceBoundsOutOfRange"
    using len by (intro Purge_panics) simp
  have w: "wrap_int (ClientCacheSize ?D3 + ClientCacheTolerance ?D3) = 2"
    "wrap_int (ClientCacheTolerance ?D3 * 2) = 4"
    by (simp_all add: wrap_int_def)
  have big: "wrap_int (ClientCacheSize ?D3 + ClientCacheTolerance ?D3) < len_clients ?D3"
    unfolding w len by simp
  have "RequireAuth ?E ?D3 ?rng ''d'' 4 = Inl SliceBoundsOutOfRange"
    by (simp only: RequireAuth_purge [OF big] w p sum.case)
  then have "RequireAuth_seq ?E ?D (?I @ [(?rng, ''d'', 4)]) = Inl SliceBoundsOutOfRange"
    by (simp only: RequireAuth_seq_snoc 1 sum.case)
  with len p show ?thesis unfolding m by simp
qed

section \<open>The lock discipline\<close>

lemma writes_exclusive_append:
  "writes_exclusive s (es @ Lock # fs) = (writes_exclusive s es \<and> writes_exclusive Exclusive fs)"
  "writes_exclusive s (es @ RLock # fs) = (writes_exclusive s es \<and> writes_exclusive Shared fs)"
  by (induction s es rule: writes_exclusive.induct) auto

lemma writes_exclusive_reads [simp]:
  "writes_exclusive s (map (\<lambda>c. Read_cache) xs @ es) = writes_exclusive s es"
  by (induction xs) auto

lemma writes_exclusive_writes [simp]:
  "writes_exclusive Exclusive (map (\<lambda>c. Write_cache) xs @ es) = writes_exclusive Exclusive es"
  by (induction xs) auto

lemma Purge_events_exclusive:
  "writes_exclusive s (Purge_events da rng cnt @ Lock # es) = writes_exclusive Exclusive es"
  by (simp add: Purge_events_def)

lemma Purge_events_ok: "writes_exclusive s (Purge_events da rng cnt)"
  using writes_exclusive_writes [of "take (nat cnt) (sort_Sort (entries_of rng))" "[Unlock]"]
  by (simp add: Purge_events_def)

lemma RequireAuth_events_ok: "writes_exclusive s (RequireAuth_events da rng)"
  using Purge_events_ok by (simp add: RequireAuth_events_def Let_def Purge_events_exclusive)

lemma CheckAuth_events_accept:
  assumes "CheckAuth env da r now = (username, Some info, da')"
  shows "CheckAuth_events env da r = [RLock, Read_cache, Write_cache, Write_cache, RUnlock]"
proof -
  from CheckAuth_accepted_ex [OF assms] obtain auth n client where
    "request_params env da r = Some auth" "crypto_valid env da r auth"
    "ParseUint (get auth ''nc'') = Some n" "clients da (get auth ''nonce'') = Some client"
    "nc client = 0 \<or> nc client < n \<or> IgnoreNonceCount da"
    by blast
  then show ?thesis by (auto simp: CheckAuth_events_def)
qed

text \<open>Claim C5 says that every write of the cache happens under the exclusive lock and
  that the lookup and the update of the verifier are in one exclusive section.
  \<^verbatim>\<open>Purge\<close> and \<^verbatim>\<open>RequireAuth\<close> write under the exclusive lock (\<open>Purge_events_ok\<close>,
  \<open>RequireAuth_events_ok\<close>). \<^verbatim>\<open>CheckAuth\<close> holds the shared lock from line 134 to its
  return, and every accepting call writes the session under it
  (\<open>CheckAuth_events_accept\<close>): so does the accepted request of the instance.\<close>

theorem CheckAuth_writes_under_shared_lock:
  "CheckAuth_events (example_env ''alice'' ''auth'') example_da (example_request ''1'') =
     [RLock, Read_cache, Write_cache, Write_cache, RUnlock] \<and>
   \<not> writes_exclusive Unlocked
       (CheckAuth_events (example_env ''alice'' ''auth'') example_da (example_request ''1''))"
proof -
  have c: "clients example_da (get (example_params ''alice'' ''auth'' ''1'') ''nonce'') =
      Some \<lparr>nc = 0, last_seen = 0\<rparr>"
    by (simp add: example_get example_da_n0)
  have "\<exists>u i d. CheckAuth (example_env ''alice'' ''auth'') example_da (example_request ''1'') 5 = (u, Some i, d)"
    using CheckAuth_accept [OF example_params_at example_valid_at example_hash_of _ c, of 1 5]
    by (simp add: example_get ParseUint_examples)
  then have "CheckAuth_events (example_env ''alice'' ''auth'') example_da (example_request ''1'') =
     [RLock, Read_cache, Write_cache, Write_cache, RUnlock]"
    using CheckAuth_events_accept by blast
  then show ?thesis by simp
qed

end
